theory Spec2Isabelle
  imports
    Complex_Main
    "HOL-Library.Word"
    "HOL-Library.Multiset"
    "HOL-Library.List_Lexorder"
    "HOL-Library.Char_ord"
    "HOL-Library.Product_Lexorder"
begin

unbundle bit_operations_syntax

text \<open>
  A shallow embedding of src/extractor/extractor.cpp of osrm-backend, the driver of the
  extraction stage: the segregated-edge rule \<open>IsSegregated\<close>, the class tables
  \<open>SetClassNames\<close> and \<open>SetExcludableClasses\<close>, the order of the steps of
  \<open>ParseOSMData\<close>, the component labelling \<open>FindComponents\<close> and the compaction of
  \<open>BuildRTree\<close>. The definitions come first, then the concrete inputs, then the
  properties, one section for each part of the source.
\<close>

section \<open>Segregated-edge detector (\<open>IsSegregated\<close>, extractor.cpp)\<close>

text \<open>
  \<open>guidance::RoadPriorityClass::Enum\<close> is declared outside extractor.cpp. The five
  enumerators that \<open>get_length_threshold\<close> names are constructors of their own; every
  other enumerator is \<open>OTHER_PRIORITY\<close> of its numeric value and takes the
  \<open>default\<close> branch of the switch.
\<close>

datatype RoadPriorityClass =
  MOTORWAY | TRUNK | PRIMARY | SECONDARY | TERTIARY | OTHER_PRIORITY nat

text \<open>
  \<open>struct EdgeInfo\<close>. The name is a \<open>util::StringView\<close>: a byte string, compared
  lexicographically by unsigned byte value, which is the order of \<open>char list\<close> here.
  \<open>ClassData\<close> is only compared for equality in the detector, so it is the type
  parameter \<open>'c\<close>.
\<close>

record 'c EdgeInfo =
  node :: nat
  name :: string
  direction :: int
  road_class :: 'c
  road_priority_class :: RoadPriorityClass

definition LessName :: "'c EdgeInfo \<Rightarrow> 'c EdgeInfo \<Rightarrow> bool" where
  "LessName e1 e2 = (name e1 < name e2)"

text \<open>
  \<open>std::sort(v.begin(), v.end(), EdgeInfo::LessName())\<close> is not a stable sort: the C++
  standard fixes only that the result is a permutation of the input ordered by the
  comparator. The model of \<open>IsSegregated\<close> therefore takes the sort as its first
  argument, and the theorems hold for every function meeting that contract;
  \<open>sort_key name\<close> is one.
\<close>

definition std_sort_LessName :: "('c EdgeInfo list \<Rightarrow> 'c EdgeInfo list) \<Rightarrow> bool" where
  "std_sort_LessName sort_by_name_fn =
     (\<forall>v. mset (sort_by_name_fn v) = mset v \<and> sorted (map name (sort_by_name_fn v)))"

text \<open>
  \<open>std::lower_bound\<close> as the standard library implements it: halve the remaining range
  \<open>[first, first + len)\<close> until it is empty. \<open>less_than_value e\<close> stands for
  \<open>comp(e, value)\<close>.
\<close>

function lower_bound :: "'a list \<Rightarrow> ('a \<Rightarrow> bool) \<Rightarrow> nat \<Rightarrow> nat \<Rightarrow> nat" where
  "lower_bound v less_than_value first len =
     (if len = 0 then first
      else let half = len div 2; middle = first + half
           in if less_than_value (v ! middle)
              then lower_bound v less_than_value (middle + 1) (len - (half + 1))
              else lower_bound v less_than_value first half)"
  by pat_completeness auto
termination
  by (relation "measure (\<lambda>(v, p, first, len). len)") auto

declare lower_bound.simps [simp del]

text \<open>
  \<open>std::binary_search(v.begin(), v.end(), current, EdgeInfo::LessName())\<close>:
  \<open>first = lower_bound(...); return first != last && !comp(value, *first)\<close>.
\<close>

definition findNameFn :: "'c EdgeInfo \<Rightarrow> 'c EdgeInfo list \<Rightarrow> bool" where
  "findNameFn current v =
     (let first = lower_bound v (\<lambda>e. LessName e current) 0 (length v)
      in first \<noteq> length v \<and> \<not> LessName current (v ! first))"

text \<open>
  The \<open>set_intersection\<close>-like loop over the two sorted vectors. \<open>i1\<close> and \<open>i2\<close> are the
  heads of the remaining lists; a pair with equal names is pushed to \<open>commons\<close> unless the
  name is empty, and both iterators advance.
\<close>

fun merge_commons ::
  "'c EdgeInfo list \<Rightarrow> 'c EdgeInfo list \<Rightarrow> ('c EdgeInfo \<times> 'c EdgeInfo) list" where
  "merge_commons (i1 # v1) (i2 # v2) =
     (if name i1 = name i2
      then (if name i1 \<noteq> [] then [(i1, i2)] else []) @ merge_commons v1 v2
      else if name i1 < name i2 then merge_commons v1 (i2 # v2)
      else merge_commons (i1 # v1) v2)"
| "merge_commons [] v2 = []"
| "merge_commons v1 [] = []"

definition check_equal_class :: "'c EdgeInfo \<times> 'c EdgeInfo \<Rightarrow> bool" where
  "check_equal_class e = (road_class (fst e) = road_class (snd e))"

definition get_length_threshold :: "'c EdgeInfo \<Rightarrow> real" where
  "get_length_threshold e =
     (case road_priority_class e of
        MOTORWAY \<Rightarrow> 30
      | TRUNK \<Rightarrow> 30
      | PRIMARY \<Rightarrow> 20
      | SECONDARY \<Rightarrow> 10
      | TERTIARY \<Rightarrow> 10
      | OTHER_PRIORITY _ \<Rightarrow> 5)"

text \<open>
  \<open>std::numeric_limits<double>::max()\<close>. The edge length and the thresholds are doubles;
  the thresholds are small integers and the only operations on them are one addition,
  \<open>min\<close> and \<open>\<le>\<close>, all exact, so finite doubles are modelled as the reals they denote.
\<close>

definition DBL_MAX :: real where
  "DBL_MAX = (2 ^ 53 - 1) * 2 ^ 971"

definition length_threshold :: "('c EdgeInfo \<times> 'c EdgeInfo) list \<Rightarrow> real" where
  "length_threshold commons =
     fold (\<lambda>e threshold. min threshold (get_length_threshold (fst e) + get_length_threshold (snd e)))
       commons DBL_MAX"

definition IsSegregated ::
  "('c EdgeInfo list \<Rightarrow> 'c EdgeInfo list) \<Rightarrow> 'c EdgeInfo list \<Rightarrow> 'c EdgeInfo list \<Rightarrow>
    'c EdgeInfo \<Rightarrow> real \<Rightarrow> bool" where
  "IsSegregated sort_by_name_fn v1 v2 current edgeLength =
     (if length v1 < 2 \<or> length v2 < 2 then False
      else
        let v1' = sort_by_name_fn v1; v2' = sort_by_name_fn v2
        in if name current \<noteq> [] \<and> \<not> findNameFn current v1' \<and> \<not> findNameFn current v2'
           then False
           else
             let commons = merge_commons v1' v2'
             in if length commons < 2 then False
                else if length (filter check_equal_class commons) < 2 then False
                else edgeLength \<le> length_threshold commons)"

text \<open>The \<open>commons\<close> vector that \<open>IsSegregated\<close> builds from its two arguments.\<close>

definition commons_of ::
  "('c EdgeInfo list \<Rightarrow> 'c EdgeInfo list) \<Rightarrow> 'c EdgeInfo list \<Rightarrow> 'c EdgeInfo list \<Rightarrow>
    ('c EdgeInfo \<times> 'c EdgeInfo) list" where
  "commons_of sort_by_name_fn v1 v2 = merge_commons (sort_by_name_fn v1) (sort_by_name_fn v2)"

section \<open>Errors\<close>

text \<open>
  One constructor for each \<open>throw util::exception(...)\<close> of extractor.cpp, carrying what
  its message is built from. A failing \<open>BOOST_ASSERT\<close> is the outcome
  \<open>AssertionFailed\<close>: with assertions compiled in the run aborts there; with assertions
  compiled out the source reads out of range from that point on, and nothing is claimed
  about it. On every run whose result is not \<open>AssertionFailed\<close> both builds agree.
\<close>

datatype error =
    InvalidClassName string
  | MaximumNumberOfClasses nat
  | UnknownClassName string
  | TooManyExcludableCombinations nat
  | NoEdgesRemaining
  | NoSnappableEdges
  | AssertionFailed

fun is_exception :: "error \<Rightarrow> bool" where
  "is_exception AssertionFailed = False"
| "is_exception _ = True"

section \<open>Class names and excludable classes (\<open>SetClassNames\<close>, \<open>SetExcludableClasses\<close>)\<close>

text \<open>
  \<open>ClassData\<close> is a fixed-width unsigned bit mask, \<open>'w word\<close>; the records below
  leave its type open as \<open>'c\<close> and the functions use them at \<open>'w word\<close>.
  \<open>ExtractorCallbacks::ClassesMap\<close> is a \<open>std::unordered_map\<close> from class name to
  \<open>ClassData\<close>: an association list with distinct keys, whose order stands for the
  iteration order of the hash map (which C++ leaves unspecified). \<open>find\<close> is
  \<open>map_of\<close>, \<open>size()\<close> is \<open>length\<close>, and inserting a new key appends.
\<close>

type_synonym 'c ClassesMap = "(string \<times> 'c) list"

text \<open>
  Modelled from the spec: \<open>ProfileProperties\<close> (extractor/profile_properties.hpp is not
  part of the sources). The spec describes it as holding the class names and the
  excludable masks by index, index 0 of the masks being reserved for "nothing excluded".
  The two setters store at the given index.
\<close>

record 'c ProfileProperties =
  class_names :: "nat \<Rightarrow> string"
  excludable_classes :: "nat \<Rightarrow> 'c"

definition ProfileProperties_SetClassName ::
  "nat \<Rightarrow> string \<Rightarrow> 'c ProfileProperties \<Rightarrow> 'c ProfileProperties" where
  "ProfileProperties_SetClassName index nm pp = pp\<lparr>class_names := (class_names pp)(index := nm)\<rparr>"

definition ProfileProperties_SetExcludableClasses ::
  "nat \<Rightarrow> 'c \<Rightarrow> 'c ProfileProperties \<Rightarrow> 'c ProfileProperties" where
  "ProfileProperties_SetExcludableClasses index mask' pp =
     pp\<lparr>excludable_classes := (excludable_classes pp)(index := mask')\<rparr>"

text \<open>
  Modelled from the spec: \<open>isValidClassName\<close> (extractor/class_data.hpp is not part of
  the sources). The spec: class names must match \<open>[A-Za-z0-9]+\<close>.
\<close>

definition isalnum :: "char \<Rightarrow> bool" where
  "isalnum c =
     (let n = (of_char c :: nat)
      in (48 \<le> n \<and> n \<le> 57) \<or> (65 \<le> n \<and> n \<le> 90) \<or> (97 \<le> n \<and> n \<le> 122))"

definition isValidClassName :: "string \<Rightarrow> bool" where
  "isValidClassName nm = (nm \<noteq> [] \<and> list_all isalnum nm)"

text \<open>
  Modelled from the spec: \<open>getClassData\<close> and \<open>getClassIndexes\<close> (class_data.hpp).
  \<open>ClassData\<close> is a bit mask over the classes: class \<open>index\<close> is bit \<open>index\<close>, and the
  indexes of a mask are the positions of its set bits, in ascending order.
\<close>

definition getClassData :: "nat \<Rightarrow> 'w::len word" where
  "getClassData index = push_bit index 1"

definition getClassIndexes :: "'w::len word \<Rightarrow> nat list" where
  "getClassIndexes data = filter (bit data) [0..<LENGTH('w)]"

text \<open>
  First loop of \<open>SetClassNames\<close>: every declared name is validated and, when it is not
  yet a key of \<open>classes_map\<close>, added with the next free index. \<open>MAX_CLASS_INDEX\<close> is
  declared outside extractor.cpp and is the first argument.
\<close>

fun add_class_names ::
  "nat \<Rightarrow> string list \<Rightarrow> 'w::len word ClassesMap \<Rightarrow> error + 'w word ClassesMap" where
  "add_class_names MAX_CLASS_INDEX [] classes_map = Inr classes_map"
| "add_class_names MAX_CLASS_INDEX (nm # rest) classes_map =
     (if \<not> isValidClassName nm then Inl (InvalidClassName nm)
      else
        (case map_of classes_map nm of
           None \<Rightarrow>
             (let index = length classes_map
              in if index > MAX_CLASS_INDEX then Inl (MaximumNumberOfClasses (MAX_CLASS_INDEX + 1))
                 else add_class_names MAX_CLASS_INDEX rest
                        (classes_map @ [(nm, getClassData index)]))
         | Some _ \<Rightarrow> add_class_names MAX_CLASS_INDEX rest classes_map))"

text \<open>Second loop: every key of \<open>classes_map\<close> must be in the declared list.\<close>

fun check_class_names :: "string list \<Rightarrow> 'c ClassesMap \<Rightarrow> error + unit" where
  "check_class_names declared [] = Inr ()"
| "check_class_names declared (pair # rest) =
     (if fst pair \<notin> set declared then Inl (UnknownClassName (fst pair))
      else check_class_names declared rest)"

text \<open>Third loop: every entry of \<open>classes_map\<close> is written to the profile properties.\<close>

fun write_class_names ::
  "'w::len word ClassesMap \<Rightarrow> 'w word ProfileProperties \<Rightarrow> error + 'w word ProfileProperties" where
  "write_class_names [] profile_properties = Inr profile_properties"
| "write_class_names (pair # rest) profile_properties =
     (let range = getClassIndexes (snd pair)
      in if length range \<noteq> 1 then Inl AssertionFailed
         else write_class_names rest
                (ProfileProperties_SetClassName (hd range) (fst pair) profile_properties))"

text \<open>
  \<open>SetClassNames\<close> changes \<open>classes_map\<close> and \<open>profile_properties\<close> through references;
  the model returns both.
\<close>

definition SetClassNames ::
  "nat \<Rightarrow> string list \<Rightarrow> 'w::len word ClassesMap \<Rightarrow> 'w word ProfileProperties \<Rightarrow>
    error + ('w word ClassesMap \<times> 'w word ProfileProperties)" where
  "SetClassNames MAX_CLASS_INDEX declared classes_map profile_properties =
     (case (if declared \<noteq> []
            then (case add_class_names MAX_CLASS_INDEX declared classes_map of
                    Inl e \<Rightarrow> Inl e
                  | Inr classes_map' \<Rightarrow>
                      (case check_class_names declared classes_map' of
                         Inl e \<Rightarrow> Inl e
                       | Inr _ \<Rightarrow> Inr classes_map'))
            else Inr classes_map) of
        Inl e \<Rightarrow> Inl e
      | Inr classes_map' \<Rightarrow>
          (case write_class_names classes_map' profile_properties of
             Inl e \<Rightarrow> Inl e
           | Inr profile_properties' \<Rightarrow> Inr (classes_map', profile_properties')))"

text \<open>
  The inner loop of \<open>SetExcludableClasses\<close>: the masks of the known names of a
  combination are or-ed together; an unknown name is logged and ignored.
\<close>

definition combination_mask :: "'w::len word ClassesMap \<Rightarrow> string list \<Rightarrow> 'w word" where
  "combination_mask classes_map combination =
     fold (\<lambda>nm mask'. case map_of classes_map nm of None \<Rightarrow> mask' | Some d \<Rightarrow> mask' OR d)
       combination 0"

fun excludable_loop ::
  "'w::len word ClassesMap \<Rightarrow> string list list \<Rightarrow> nat \<Rightarrow> 'w word ProfileProperties \<Rightarrow>
    'w word ProfileProperties" where
  "excludable_loop classes_map [] combination_index profile_properties = profile_properties"
| "excludable_loop classes_map (combination # rest) combination_index profile_properties =
     (let mask' = combination_mask classes_map combination
      in if mask' > 0
         then excludable_loop classes_map rest (combination_index + 1)
                (ProfileProperties_SetExcludableClasses combination_index mask' profile_properties)
         else excludable_loop classes_map rest combination_index profile_properties)"

text \<open>\<open>MAX_EXCLUDABLE_CLASSES\<close> is declared outside extractor.cpp and is the first argument.\<close>

definition SetExcludableClasses ::
  "nat \<Rightarrow> 'w::len word ClassesMap \<Rightarrow> string list list \<Rightarrow> 'w word ProfileProperties \<Rightarrow>
    error + 'w word ProfileProperties" where
  "SetExcludableClasses MAX_EXCLUDABLE_CLASSES classes_map excludable profile_properties =
     (if length excludable > MAX_EXCLUDABLE_CLASSES
      then Inl (TooManyExcludableCombinations MAX_EXCLUDABLE_CLASSES)
      else Inr (excludable_loop classes_map excludable 1
                  (ProfileProperties_SetExcludableClasses 0 0 profile_properties)))"


section \<open>The order of the steps of \<open>Extractor::ParseOSMData\<close>\<close>

text \<open>
  \<open>ParseOSMData\<close> drives collaborators that are not part of extractor.cpp (the osmium
  reader, the scripting environment, the extractor callbacks, the extraction containers).
  The model keeps the order of its steps as a log of events, and takes what the
  collaborators deliver as arguments: what the profile declares, and the edge list and
  the classes map as the two parsing pipelines leave them.
\<close>

datatype 'c event =
    WriteTimestamp
  | ParseRelations
  | ParseWaysAndNodes
  | PrepareData
  | WriteProfileProperties "'c ProfileProperties"

record 'c ScriptingEnvironment =
  GetClassNames :: "string list"
  GetExcludableClasses :: "string list list"
  GetProfileProperties :: "'c ProfileProperties"

record ('e, 'c, 'r) parsed =
  all_edges_list :: "'e list"
  parsed_classes_map :: "'c ClassesMap"
  parsed_restrictions :: 'r

definition ParseOSMData ::
  "nat \<Rightarrow> nat \<Rightarrow> 'w::len word ScriptingEnvironment \<Rightarrow> ('e, 'w word, 'r) parsed \<Rightarrow>
    'w word event list \<times> (error + 'r)" where
  "ParseOSMData MAX_CLASS_INDEX MAX_EXCLUDABLE_CLASSES scripting_environment extraction =
     (let events = [WriteTimestamp, ParseRelations, ParseWaysAndNodes]
      in if all_edges_list extraction = [] then (events, Inl NoEdgesRemaining)
         else
           let events = events @ [PrepareData]
           in (case SetClassNames MAX_CLASS_INDEX (GetClassNames scripting_environment)
                       (parsed_classes_map extraction) (GetProfileProperties scripting_environment) of
                 Inl e \<Rightarrow> (events, Inl e)
               | Inr (classes_map, profile_properties) \<Rightarrow>
                   (case SetExcludableClasses MAX_EXCLUDABLE_CLASSES classes_map
                           (GetExcludableClasses scripting_environment) profile_properties of
                      Inl e \<Rightarrow> (events, Inl e)
                    | Inr profile_properties' \<Rightarrow>
                        (events @ [WriteProfileProperties profile_properties'],
                         Inr (parsed_restrictions extraction)))))"

text \<open>
  The spec's error kind InvalidProfileDeclaration speaks of an error "reported before
  ingestion starts": no parsing step has happened when the error is returned.
\<close>

definition reported_before_ingestion :: "'c event list \<Rightarrow> bool" where
  "reported_before_ingestion events =
     (ParseRelations \<notin> set events \<and> ParseWaysAndNodes \<notin> set events)"

text \<open>
  The declarations that \<open>SetClassNames\<close> and \<open>SetExcludableClasses\<close> reject, in the
  words of the amended claim C2: a declared class name that is not valid; more than
  \<open>MAX_CLASS_INDEX + 1\<close> classes in all (declared or used on a way) while some declared
  class is not yet in the classes map; more than \<open>MAX_EXCLUDABLE_CLASSES\<close> excludable
  combinations; or, with a non-empty declared list, a class used on a way that is not
  declared.
\<close>

definition invalid_profile_declaration ::
  "nat \<Rightarrow> nat \<Rightarrow> 'c ScriptingEnvironment \<Rightarrow> ('e, 'c, 'r) parsed \<Rightarrow> bool" where
  "invalid_profile_declaration MAX_CLASS_INDEX MAX_EXCLUDABLE_CLASSES scripting_environment
     extraction =
     (let declared = GetClassNames scripting_environment;
          used = map fst (parsed_classes_map extraction)
      in (\<exists>nm\<in>set declared. \<not> isValidClassName nm)
         \<or> ((\<exists>nm\<in>set declared. nm \<notin> set used)
              \<and> MAX_CLASS_INDEX + 1 < card (set declared \<union> set used))
         \<or> MAX_EXCLUDABLE_CLASSES < length (GetExcludableClasses scripting_environment)
         \<or> (declared \<noteq> [] \<and> (\<exists>nm\<in>set used. nm \<notin> set declared)))"

section \<open>Strongly connected components (\<open>Extractor::FindComponents\<close>)\<close>

text \<open>
  Modelled from the spec: \<open>EdgeBasedEdge\<close> and \<open>EdgeBasedNodeSegment\<close> (their headers
  are not part of the sources), with the fields the spec lists and extractor.cpp reads.
  \<open>std::max(edge.data.weight, 1)\<close> fixes the type of the weight to \<open>int\<close>: a 32-bit
  word read as two's complement. Node ids, component indexes and sizes are unsigned in
  the source and \<open>nat\<close> here: they are compared, and the one sum \<open>1 + forward_component\<close>
  does not wrap for a component index below the node count. The field \<open>id\<close> of a
  segment id is \<open>id'\<close> here.
\<close>

record EdgeData =
  weight :: "32 word"
  duration :: "32 word"
  forward :: bool
  backward :: bool

record EdgeBasedEdge =
  source :: nat
  target :: nat
  data :: EdgeData

record SegmentID =
  id' :: nat
  enabled :: bool

record EdgeBasedNodeSegment =
  forward_segment_id :: SegmentID
  reverse_segment_id :: SegmentID

text \<open>
  \<open>nodes_container.nodes[node_id].component_id = {1 + forward_component, is_tiny}\<close>:
  the only field of an edge-based node that \<open>FindComponents\<close> touches. The source
  initialises the two fields of the component id by position; the model names them
  \<open>component\<close> and \<open>is_tiny\<close>. Whatever else a node or the container carries is the
  extension of the record.
\<close>

record ComponentID =
  component :: nat
  is_tiny :: bool

record EdgeBasedNode =
  component_id :: ComponentID

record 'n EdgeBasedNodeDataContainer =
  nodes :: "'n list"

text \<open>
  \<open>std::max\<close> on \<open>int\<close> (a signed comparison), and the first assertion of the loop
  over the input edges: \<open>static_cast<unsigned int>(std::max(edge.data.weight, 1)) > 0\<close>.
  The cast keeps the bits, and \<open>>\<close> on words is the unsigned comparison.
\<close>

definition std_max :: "32 word \<Rightarrow> 32 word \<Rightarrow> 32 word" where
  "std_max a b = (if word_sless a b then b else a)"

definition weight_assertion :: "EdgeBasedEdge \<Rightarrow> bool" where
  "weight_assertion edge = (std_max (weight (data edge)) 1 > 0)"

text \<open>The loop over \<open>input_edge_list\<close>; \<open>edges\<close> is the vector being filled.\<close>

fun push_input_edges ::
  "nat \<Rightarrow> EdgeBasedEdge list \<Rightarrow> (nat \<times> nat) list \<Rightarrow> error + (nat \<times> nat) list" where
  "push_input_edges number_of_edge_based_nodes [] edges = Inr edges"
| "push_input_edges number_of_edge_based_nodes (edge # rest) edges =
     (if \<not> weight_assertion edge then Inl AssertionFailed
      else if \<not> source edge < number_of_edge_based_nodes then Inl AssertionFailed
      else if \<not> target edge < number_of_edge_based_nodes then Inl AssertionFailed
      else
        let edges = (if forward (data edge) then edges @ [(source edge, target edge)] else edges);
            edges = (if backward (data edge) then edges @ [(target edge, source edge)] else edges)
        in push_input_edges number_of_edge_based_nodes rest edges)"

text \<open>The loop over \<open>input_node_segments\<close>, which adds the two mate edges of a segment.\<close>

fun push_mate_edges ::
  "nat \<Rightarrow> EdgeBasedNodeSegment list \<Rightarrow> (nat \<times> nat) list \<Rightarrow> error + (nat \<times> nat) list" where
  "push_mate_edges number_of_edge_based_nodes [] edges = Inr edges"
| "push_mate_edges number_of_edge_based_nodes (segment # rest) edges =
     (if enabled (reverse_segment_id segment)
      then
        if \<not> id' (forward_segment_id segment) < number_of_edge_based_nodes then Inl AssertionFailed
        else if \<not> id' (reverse_segment_id segment) < number_of_edge_based_nodes
        then Inl AssertionFailed
        else push_mate_edges number_of_edge_based_nodes rest
               (edges @ [(id' (forward_segment_id segment), id' (reverse_segment_id segment)),
                         (id' (reverse_segment_id segment), id' (forward_segment_id segment))])
      else push_mate_edges number_of_edge_based_nodes rest edges)"

text \<open>
  \<open>util::StaticGraph<void>\<close> built from the node count and the sorted edge list, and the
  interface of \<open>TarjanSCC\<close> that \<open>FindComponents\<close> uses after \<open>Run()\<close>. Both classes are
  declared outside extractor.cpp; the model of \<open>FindComponents\<close> takes the component
  search as its first argument.
\<close>

record UncontractedGraph =
  number_of_nodes :: nat
  edge_list :: "(nat \<times> nat) list"

record TarjanSCC =
  GetComponentID :: "nat \<Rightarrow> nat"
  GetComponentSize :: "nat \<Rightarrow> nat"

text \<open>The loop that labels the nodes \<open>node_id, ..., number_of_edge_based_nodes - 1\<close>.\<close>

function label_components ::
  "nat \<Rightarrow> TarjanSCC \<Rightarrow> nat \<Rightarrow> nat \<Rightarrow> ('a EdgeBasedNode_scheme) list \<Rightarrow>
    error + ('a EdgeBasedNode_scheme) list" where
  "label_components small_component_size component_search number_of_edge_based_nodes node_id ns =
     (if node_id < number_of_edge_based_nodes
      then
        let forward_component = GetComponentID component_search node_id;
            component_size = GetComponentSize component_search forward_component;
            tiny = (component_size < small_component_size)
        in if \<not> node_id < length ns then Inl AssertionFailed
           else label_components small_component_size component_search number_of_edge_based_nodes
                  (node_id + 1)
                  (ns[node_id := (ns ! node_id)
                        \<lparr>component_id := \<lparr>component = 1 + forward_component, is_tiny = tiny\<rparr>\<rparr>])
      else Inr ns)"
  by pat_completeness auto
termination
  by (relation "measure (\<lambda>(s, c, n, node_id, ns). n - node_id)") auto

declare label_components.simps [simp del]

text \<open>
  The first half of \<open>FindComponents\<close>, up to the construction of the graph.
  \<open>tbb::parallel_sort\<close> followed by \<open>std::unique\<close> and \<open>erase\<close> is
  \<open>remdups_adj (sort edges)\<close>; the edges are ordered by source, then target.
\<close>

definition build_uncontracted_graph ::
  "nat \<Rightarrow> EdgeBasedEdge list \<Rightarrow> EdgeBasedNodeSegment list \<Rightarrow> error + UncontractedGraph" where
  "build_uncontracted_graph number_of_edge_based_nodes input_edge_list input_node_segments =
     (case push_input_edges number_of_edge_based_nodes input_edge_list [] of
        Inl e \<Rightarrow> Inl e
      | Inr edges \<Rightarrow>
          (case push_mate_edges number_of_edge_based_nodes input_node_segments edges of
             Inl e \<Rightarrow> Inl e
           | Inr edges \<Rightarrow>
               Inr \<lparr>number_of_nodes = number_of_edge_based_nodes,
                    edge_list = remdups_adj (sort edges)\<rparr>))"

text \<open>
  \<open>FindComponents\<close>: the graph is built (the two loops, the sort and the \<open>unique\<close>), the
  component search runs on it, and every node is labelled. \<open>Run\<close> is the component
  search; \<open>small_component_size\<close> is \<open>config.small_component_size\<close>.
\<close>

definition FindComponents ::
  "(UncontractedGraph \<Rightarrow> TarjanSCC) \<Rightarrow> nat \<Rightarrow> nat \<Rightarrow> EdgeBasedEdge list \<Rightarrow>
    EdgeBasedNodeSegment list \<Rightarrow> ('a EdgeBasedNode_scheme, 'b) EdgeBasedNodeDataContainer_scheme \<Rightarrow>
    error + ('a EdgeBasedNode_scheme, 'b) EdgeBasedNodeDataContainer_scheme" where
  "FindComponents Run small_component_size number_of_edge_based_nodes input_edge_list
     input_node_segments nodes_container =
     (case build_uncontracted_graph number_of_edge_based_nodes input_edge_list
             input_node_segments of
        Inl e \<Rightarrow> Inl e
      | Inr uncontracted_graph \<Rightarrow>
          let component_search = Run uncontracted_graph
          in (case label_components small_component_size component_search
                     number_of_edge_based_nodes 0 (nodes nodes_container) of
                Inl e \<Rightarrow> Inl e
              | Inr ns \<Rightarrow> Inr (nodes_container\<lparr>nodes := ns\<rparr>)))"

text \<open>
  Property P1 of the spec, as the spec words it, for one edge-based edge: both endpoint
  ids are below the number of edge-based nodes and the weight is at least 1.
\<close>

definition P1_edge :: "nat \<Rightarrow> EdgeBasedEdge \<Rightarrow> bool" where
  "P1_edge number_of_edge_based_nodes edge =
     (source edge < number_of_edge_based_nodes \<and> target edge < number_of_edge_based_nodes
      \<and> word_sle 1 (weight (data edge)))"

text \<open>
  Modelled from the spec: \<open>TarjanSCC\<close> (extractor/tarjan_scc.hpp is not part of the
  sources). The spec says only that the strongly connected components of the graph are
  computed, each with an index and a size. Two nodes are in one component when each
  reaches the other along edges of the graph; the components are numbered from 0 in the
  order of their least node (the order is a choice of this model, the spec fixes none);
  the size of a component is the number of nodes that carry its index.
\<close>

definition reaches :: "(nat \<times> nat) list \<Rightarrow> nat \<Rightarrow> nat \<Rightarrow> bool" where
  "reaches es u v = (u = v \<or> (u, v) \<in> (set es)\<^sup>+)"

definition strongly_connected :: "(nat \<times> nat) list \<Rightarrow> nat \<Rightarrow> nat \<Rightarrow> bool" where
  "strongly_connected es u v = (reaches es u v \<and> reaches es v u)"

definition component_root :: "UncontractedGraph \<Rightarrow> nat \<Rightarrow> nat" where
  "component_root g v =
     (case filter (strongly_connected (edge_list g) v) [0..<number_of_nodes g] of
        [] \<Rightarrow> v
      | r # _ \<Rightarrow> r)"

definition component_index :: "UncontractedGraph \<Rightarrow> nat \<Rightarrow> nat" where
  "component_index g v =
     length (filter (\<lambda>r. component_root g r = r \<and> r < component_root g v)
               [0..<number_of_nodes g])"

definition TarjanSCC_Run :: "UncontractedGraph \<Rightarrow> TarjanSCC" where
  "TarjanSCC_Run g =
     \<lparr>GetComponentID = component_index g,
      GetComponentSize =
        (\<lambda>c. length (filter (\<lambda>v. component_index g v = c) [0..<number_of_nodes g]))\<rparr>"

section \<open>Spatial index builder (\<open>Extractor::BuildRTree\<close>)\<close>

text \<open>
  The compaction loop. \<open>out_iter\<close> and \<open>in_iter\<close> are positions in the segment vector;
  \<open>*out_iter = *in_iter\<close> overwrites in place.
\<close>

function compact_segments ::
  "bool list \<Rightarrow> nat \<Rightarrow> nat \<Rightarrow> nat \<Rightarrow> 's list \<Rightarrow> error + (nat \<times> 's list)" where
  "compact_segments node_is_startpoint index out_iter in_iter edge_based_node_segments =
     (if index < length node_is_startpoint
      then
        if \<not> in_iter \<noteq> length edge_based_node_segments then Inl AssertionFailed
        else if node_is_startpoint ! index
        then compact_segments node_is_startpoint (index + 1) (out_iter + 1) (in_iter + 1)
               (edge_based_node_segments[out_iter := edge_based_node_segments ! in_iter])
        else compact_segments node_is_startpoint (index + 1) out_iter (in_iter + 1)
               edge_based_node_segments
      else Inr (out_iter, edge_based_node_segments))"
  by pat_completeness auto
termination
  by (relation "measure (\<lambda>(f, index, out_iter, in_iter, segs). length f - index)") auto

declare compact_segments.simps [simp del]

text \<open>
  \<open>util::StaticRTree\<close> is built by a constructor outside extractor.cpp; the value stands
  for the tree built over the given segments and coordinates.
\<close>

datatype ('s, 'c) StaticRTree = StaticRTree "'s list" "'c list"

definition BuildRTree ::
  "'s list \<Rightarrow> bool list \<Rightarrow> 'c list \<Rightarrow> error + ('s, 'c) StaticRTree" where
  "BuildRTree edge_based_node_segments node_is_startpoint coordinates =
     (if \<not> length node_is_startpoint = length edge_based_node_segments then Inl AssertionFailed
      else
        (case compact_segments node_is_startpoint 0 0 0 edge_based_node_segments of
           Inl e \<Rightarrow> Inl e
         | Inr (out_iter, segments) \<Rightarrow>
             let new_size = out_iter - 0
             in if new_size = 0 then Inl NoSnappableEdges
                else Inr (StaticRTree (take new_size segments) coordinates)))"

section \<open>Concrete inputs\<close>

text \<open>
  An edge named 5th between two junctions with Broadway: at each end the road 5th
  continues and Broadway crosses, all of priority class primary and of class mask 1.
\<close>

definition neighbours_u :: "8 word EdgeInfo list" where
  "neighbours_u =
     [\<lparr>node = 1, name = ''Broadway'', direction = 0, road_class = 1, road_priority_class = PRIMARY\<rparr>,
      \<lparr>node = 2, name = ''5th'', direction = 2, road_class = 1, road_priority_class = PRIMARY\<rparr>]"

definition neighbours_v :: "8 word EdgeInfo list" where
  "neighbours_v =
     [\<lparr>node = 4, name = ''5th'', direction = 2, road_class = 1, road_priority_class = PRIMARY\<rparr>,
      \<lparr>node = 5, name = [], direction = 1, road_class = 0, road_priority_class = OTHER_PRIORITY 10\<rparr>,
      \<lparr>node = 3, name = ''Broadway'', direction = 1, road_class = 1, road_priority_class = PRIMARY\<rparr>]"

definition current_5th :: "8 word EdgeInfo" where
  "current_5th =
     \<lparr>node = 0, name = ''5th'', direction = 0, road_class = 1, road_priority_class = PRIMARY\<rparr>"

text \<open>
  Four edge-based nodes. Nodes 0 and 1 are the two directions of one segment; node 2 is
  a one-way segment entered by a turn from node 0; node 3 is a one-way segment no turn
  touches. The turn has weight 0.
\<close>

definition turn_0_2 :: EdgeBasedEdge where
  "turn_0_2 =
     \<lparr>source = 0, target = 2,
      data = \<lparr>weight = 0, duration = 0, forward = True, backward = False\<rparr>\<rparr>"

definition three_segments :: "EdgeBasedNodeSegment list" where
  "three_segments =
     [\<lparr>forward_segment_id = \<lparr>id' = 0, enabled = True\<rparr>,
       reverse_segment_id = \<lparr>id' = 1, enabled = True\<rparr>\<rparr>,
      \<lparr>forward_segment_id = \<lparr>id' = 2, enabled = True\<rparr>,
       reverse_segment_id = \<lparr>id' = 0, enabled = False\<rparr>\<rparr>,
      \<lparr>forward_segment_id = \<lparr>id' = 3, enabled = True\<rparr>,
       reverse_segment_id = \<lparr>id' = 0, enabled = False\<rparr>\<rparr>]"

definition unlabelled :: "EdgeBasedNode EdgeBasedNodeDataContainer" where
  "unlabelled = \<lparr>nodes = replicate 4 \<lparr>component_id = \<lparr>component = 0, is_tiny = False\<rparr>\<rparr>\<rparr>"

definition labelled :: "EdgeBasedNode EdgeBasedNodeDataContainer" where
  "labelled =
     \<lparr>nodes =
        [\<lparr>component_id = \<lparr>component = 1, is_tiny = False\<rparr>\<rparr>,
         \<lparr>component_id = \<lparr>component = 1, is_tiny = False\<rparr>\<rparr>,
         \<lparr>component_id = \<lparr>component = 2, is_tiny = True\<rparr>\<rparr>,
         \<lparr>component_id = \<lparr>component = 3, is_tiny = True\<rparr>\<rparr>]\<rparr>"

text \<open>
  Profiles and parsing results, with 8-bit class masks, \<open>MAX_CLASS_INDEX = 7\<close> and
  \<open>MAX_EXCLUDABLE_CLASSES = 8\<close>. The ways of \<open>one_way_used_toll\<close> use the class toll
  (mask 1) and those of \<open>one_way_used_dash\<close> a class whose name is not a valid class name.
\<close>

definition no_properties :: "8 word ProfileProperties" where
  "no_properties = \<lparr>class_names = (\<lambda>_. []), excludable_classes = (\<lambda>_. 0)\<rparr>"

definition profile_illegal_name :: "8 word ScriptingEnvironment" where
  "profile_illegal_name =
     \<lparr>GetClassNames = [''toll'', ''toll-road''], GetExcludableClasses = [[''toll'']],
      GetProfileProperties = no_properties\<rparr>"

definition profile_no_classes :: "8 word ScriptingEnvironment" where
  "profile_no_classes =
     \<lparr>GetClassNames = [], GetExcludableClasses = [], GetProfileProperties = no_properties\<rparr>"

definition one_way_used_toll :: "(nat \<times> nat, 8 word, unit) parsed" where
  "one_way_used_toll =
     \<lparr>all_edges_list = [(1, 2)], parsed_classes_map = [(''toll'', 1)], parsed_restrictions = ()\<rparr>"

definition one_way_used_dash :: "(nat \<times> nat, 8 word, unit) parsed" where
  "one_way_used_dash =
     \<lparr>all_edges_list = [(1, 2)], parsed_classes_map = [(''toll-road'', 1), (''ferry'', 2)],
      parsed_restrictions = ()\<rparr>"

definition no_ways :: "(nat \<times> nat, 8 word, unit) parsed" where
  "no_ways = \<lparr>all_edges_list = [], parsed_classes_map = [], parsed_restrictions = ()\<rparr>"


section \<open>Properties of the segregated-edge detector\<close>

lemma lower_bound_partition:
  assumes "first \<le> k" "k \<le> first + len" "first + len \<le> length v"
    and "\<forall>i<length v. p (v ! i) = (i < k)"
  shows "lower_bound v p first len = k"
  using assms
proof (induction v p first len rule: lower_bound.induct)
  case (1 v p first len)
  show ?case
  proof (cases "len = 0")
    case True
    with "1.prems" show ?thesis by (simp add: lower_bound.simps)
  next
    case False
    define half where "half = len div 2"
    define middle where "middle = first + half"
    have mid_lt: "middle < length v"
      using False "1.prems"(3) by (simp add: middle_def half_def) 
    show ?thesis
    proof (cases "p (v ! middle)")
      case True
      then have "middle < k" using "1.prems"(4) mid_lt by simp
      then have "lower_bound v p (middle + 1) (len - (half + 1)) = k"
        using "1.IH"(1)[OF False half_def middle_def True] "1.prems" False
        by (simp add: middle_def half_def)
      then show ?thesis
        using False True by (subst lower_bound.simps) (simp add: Let_def half_def middle_def)
    next
      case no: False
      then have "k \<le> middle" using "1.prems"(4) mid_lt by auto
      then have "lower_bound v p first half = k"
        using "1.IH"(2)[OF False half_def middle_def no] "1.prems" False
        by (simp add: middle_def half_def)
      then show ?thesis
        using False no by (subst lower_bound.simps) (simp add: Let_def half_def middle_def)
    qed
  qed
qed

lemma sorted_name_partition:
  assumes "sorted (map name v)"
  shows "\<exists>k\<le>length v. \<forall>i<length v. (name (v ! i) < c) = (i < k)"
proof -
  define k where "k = length (takeWhile (\<lambda>e. name e < c) v)"
  have kle: "k \<le> length v" by (simp add: k_def length_takeWhile_le)
  have "(name (v ! i) < c) = (i < k)" if "i < length v" for i
  proof (cases "i < k")
    case True
    then have "name (v ! i) < c"
      unfolding k_def using nth_mem[of i "takeWhile (\<lambda>e. name e < c) v"]
      by (metis (mono_tags, lifting) set_takeWhileD takeWhile_nth)
    with True show ?thesis by simp
  next
    case False
    then have "k < length v" using that by simp
    then have nk: "\<not> name (v ! k) < c"
      unfolding k_def by (rule nth_length_takeWhile)
    have "name (v ! k) \<le> name (v ! i)"
      using assms False that by (simp add: sorted_iff_nth_mono)
    with nk False show ?thesis by auto
  qed
  with kle show ?thesis by blast
qed

lemma findNameFn_sorted:
  assumes "sorted (map name v)"
  shows "findNameFn current v = (\<exists>e\<in>set v. name e = name current)"
proof -
  obtain k where k: "k \<le> length v" "\<forall>i<length v. (name (v ! i) < name current) = (i < k)"
    using sorted_name_partition[OF assms] by blast
  have lb: "lower_bound v (\<lambda>e. LessName e current) 0 (length v) = k"
    by (rule lower_bound_partition) (use k in \<open>simp_all add: LessName_def\<close>)
  show ?thesis
  proof
    assume "findNameFn current v"
    then have "k \<noteq> length v" "\<not> name current < name (v ! k)"
      using lb by (simp_all add: findNameFn_def LessName_def)
    then have "k < length v" using k(1) by simp
    moreover have "\<not> name (v ! k) < name current" using k(2) \<open>k < length v\<close> by simp
    ultimately show "\<exists>e\<in>set v. name e = name current"
      using \<open>\<not> name current < name (v ! k)\<close> by (metis nth_mem not_less_iff_gr_or_eq)
  next
    assume "\<exists>e\<in>set v. name e = name current"
    then obtain i where i: "i < length v" "name (v ! i) = name current"
      by (metis in_set_conv_nth)
    then have "k \<le> i" using k(2) by (metis less_irrefl not_le_imp_less)
    then have "k < length v" using i by simp
    moreover have "name (v ! k) \<le> name (v ! i)"
      using assms \<open>k \<le> i\<close> i(1) by (simp add: sorted_iff_nth_mono)
    ultimately show "findNameFn current v"
      using lb i(2) by (simp add: findNameFn_def LessName_def not_less)
  qed
qed

lemma length_merge_commons:
  "length (merge_commons v1 v2) \<le> min (length v1) (length v2)"
  by (induction v1 v2 rule: merge_commons.induct) auto

lemma merge_commons_sound:
  "(a, b) \<in> set (merge_commons v1 v2) \<Longrightarrow>
     a \<in> set v1 \<and> b \<in> set v2 \<and> name a = name b \<and> name a \<noteq> []"
  by (induction v1 v2 rule: merge_commons.induct) (auto split: if_splits)

lemma fold_min_Min:
  fixes f :: "'a \<Rightarrow> real"
  shows "fold (\<lambda>e t. min t (f e)) xs a = Min (insert a (f ` set xs))"
proof (induction xs arbitrary: a)
  case Nil
  then show ?case by simp
next
  case (Cons x xs)
  have "Min (insert (min a (f x)) (f ` set xs)) = Min (insert a (insert (f x) (f ` set xs)))"
    by (cases "set xs = {}") (simp_all add: min.commute min.assoc)
  with Cons show ?case by simp
qed

lemma get_length_threshold_le: "get_length_threshold e \<le> 30"
  by (simp add: get_length_threshold_def split: RoadPriorityClass.split)

lemma DBL_MAX_ge: "60 \<le> DBL_MAX"
  by (simp add: DBL_MAX_def)

lemma length_threshold_Min:
  assumes "commons \<noteq> []"
  shows "length_threshold commons =
         Min ((\<lambda>e. get_length_threshold (fst e) + get_length_threshold (snd e)) ` set commons)"
proof -
  let ?f = "\<lambda>e. get_length_threshold (fst e) + get_length_threshold (snd e)"
  have ne: "?f ` set commons \<noteq> {}" using assms by simp
  have "Min (?f ` set commons) \<le> DBL_MAX"
  proof -
    obtain e where "e \<in> set commons" using assms by (cases commons) auto
    then have "Min (?f ` set commons) \<le> ?f e" by simp
    also have "\<dots> \<le> 60"
      using get_length_threshold_le[of "fst e"] get_length_threshold_le[of "snd e"] by simp
    finally show ?thesis using DBL_MAX_ge by simp
  qed
  then show ?thesis
    unfolding length_threshold_def fold_min_Min using ne by (simp add: min_absorb2)
qed

lemma std_sort_LessName_set:
  "std_sort_LessName srt \<Longrightarrow> set (srt v) = set v"
  unfolding std_sort_LessName_def by (metis set_mset_mset)

lemma std_sort_LessName_length:
  "std_sort_LessName srt \<Longrightarrow> length (srt v) = length v"
  unfolding std_sort_LessName_def by (metis size_mset)

lemma std_sort_LessName_sorted:
  "std_sort_LessName srt \<Longrightarrow> sorted (map name (srt v))"
  unfolding std_sort_LessName_def by blast

lemma std_sort_LessName_sort_key: "std_sort_LessName (sort_key name)"
  by (simp add: std_sort_LessName_def)

lemma findNameFn_std_sort:
  "std_sort_LessName srt \<Longrightarrow> findNameFn current (srt v) = (\<exists>e\<in>set v. name e = name current)"
  by (simp add: findNameFn_sorted std_sort_LessName_sorted std_sort_LessName_set)

lemma commons_of_sound:
  assumes "std_sort_LessName srt" "(a, b) \<in> set (commons_of srt v1 v2)"
  shows "a \<in> set v1 \<and> b \<in> set v2 \<and> name a = name b \<and> name a \<noteq> []"
  using merge_commons_sound[of a b "srt v1" "srt v2"] assms
  by (auto simp: commons_of_def std_sort_LessName_set)

lemma length_commons_of:
  assumes "std_sort_LessName srt"
  shows "length (commons_of srt v1 v2) \<le> min (length v1) (length v2)"
  using length_merge_commons[of "srt v1" "srt v2"] assms
  by (simp add: commons_of_def std_sort_LessName_length)

text \<open>
  Claim C5. \<open>IsSegregated\<close> returns false unless all of its gates hold. When it returns
  true: if the name of the current edge is not empty, one of the two neighbour lists
  holds an edge of that name; the common pairs (each a pair of an edge of the first list
  and an edge of the second with equal, non-empty names, found by the merge of the two
  sorted lists) are at least two; and at least two common pairs have equal class masks.
\<close>

theorem IsSegregated_gates:
  assumes "std_sort_LessName sort_by_name_fn"
    and "IsSegregated sort_by_name_fn v1 v2 current edgeLength"
  shows "(name current \<noteq> [] \<longrightarrow>
            (\<exists>e\<in>set v1. name e = name current) \<or> (\<exists>e\<in>set v2. name e = name current))
       \<and> (\<forall>(a, b)\<in>set (commons_of sort_by_name_fn v1 v2).
            a \<in> set v1 \<and> b \<in> set v2 \<and> name a = name b \<and> name a \<noteq> [])
       \<and> 2 \<le> length (commons_of sort_by_name_fn v1 v2)
       \<and> 2 \<le> length (filter (\<lambda>(a, b). road_class a = road_class b)
                         (commons_of sort_by_name_fn v1 v2))"
proof -
  have cls: "(\<lambda>(a, b). road_class a = road_class b) = (check_equal_class :: 'a EdgeInfo \<times> 'a EdgeInfo \<Rightarrow> bool)"
    by (auto simp: check_equal_class_def)
  have gate: "name current \<noteq> [] \<longrightarrow>
            (\<exists>e\<in>set v1. name e = name current) \<or> (\<exists>e\<in>set v2. name e = name current)"
    using assms(2) findNameFn_std_sort[OF assms(1)]
    by (auto simp: IsSegregated_def Let_def split: if_splits)
  have sound: "\<forall>(a, b)\<in>set (commons_of sort_by_name_fn v1 v2).
            a \<in> set v1 \<and> b \<in> set v2 \<and> name a = name b \<and> name a \<noteq> []"
    using commons_of_sound[OF assms(1)] by blast
  have sizes: "2 \<le> length (commons_of sort_by_name_fn v1 v2)"
     "2 \<le> length (filter check_equal_class (commons_of sort_by_name_fn v1 v2))"
    using assms(2)
    by (auto simp: IsSegregated_def commons_of_def Let_def split: if_splits)
  from gate sound sizes show ?thesis unfolding cls by blast
qed

theorem IsSegregated_gates_witness:
  "std_sort_LessName (sort_key name :: 8 word EdgeInfo list \<Rightarrow> 8 word EdgeInfo list)
   \<and> IsSegregated (sort_key name) neighbours_u neighbours_v current_5th 12
   \<and> name current_5th \<noteq> []
   \<and> 2 \<le> length (commons_of (sort_key name) neighbours_u neighbours_v)
   \<and> 2 \<le> length (filter (\<lambda>(a, b). road_class a = road_class b)
                     (commons_of (sort_key name) neighbours_u neighbours_v))"
proof -
  have srt: "std_sort_LessName (sort_key name :: 8 word EdgeInfo list \<Rightarrow> 8 word EdgeInfo list)"
    by (rule std_sort_LessName_sort_key)
  have seg: "IsSegregated (sort_key name) neighbours_u neighbours_v current_5th 12"
    by code_simp
  have nm: "name current_5th \<noteq> []"
    by (simp add: current_5th_def)
  from IsSegregated_gates[OF srt seg] srt seg nm show ?thesis by blast
qed

text \<open>
  Claim C6. When the gates hold, \<open>IsSegregated\<close> returns true exactly when the edge
  length is at most the least \<open>t(a) + t(b)\<close> over the common pairs \<open>(a, b)\<close>, where
  \<open>t\<close> is 30 for motorway and trunk, 20 for primary, 10 for secondary and tertiary, and 5
  for every other priority class.
\<close>

theorem IsSegregated_length_rule:
  assumes "std_sort_LessName sort_by_name_fn"
    and "name current \<noteq> [] \<longrightarrow>
           (\<exists>e\<in>set v1. name e = name current) \<or> (\<exists>e\<in>set v2. name e = name current)"
    and "2 \<le> length (commons_of sort_by_name_fn v1 v2)"
    and "2 \<le> length (filter (\<lambda>(a, b). road_class a = road_class b)
                        (commons_of sort_by_name_fn v1 v2))"
  shows "IsSegregated sort_by_name_fn v1 v2 current edgeLength =
           (edgeLength \<le> Min ((\<lambda>(a, b). get_length_threshold a + get_length_threshold b) `
                                set (commons_of sort_by_name_fn v1 v2)))
       \<and> get_length_threshold e =
           (if road_priority_class e = MOTORWAY \<or> road_priority_class e = TRUNK then 30
            else if road_priority_class e = PRIMARY then 20
            else if road_priority_class e = SECONDARY \<or> road_priority_class e = TERTIARY then 10
            else 5)"
proof -
  let ?commons = "commons_of sort_by_name_fn v1 v2"
  have cls: "(\<lambda>(a, b). road_class a = road_class b) = (check_equal_class :: 'a EdgeInfo \<times> 'a EdgeInfo \<Rightarrow> bool)"
    by (auto simp: check_equal_class_def)
  have thr: "(\<lambda>(a, b). get_length_threshold a + get_length_threshold b)
           = (\<lambda>e :: 'a EdgeInfo \<times> 'a EdgeInfo. get_length_threshold (fst e) + get_length_threshold (snd e))"
    by (auto simp: fun_eq_iff)
  have len: "\<not> (length v1 < 2 \<or> length v2 < 2)"
    using length_commons_of[OF assms(1), of v1 v2] assms(3) by simp
  have ne: "?commons \<noteq> []" using assms(3) by auto
  have gate: "\<not> (name current \<noteq> [] \<and> \<not> findNameFn current (sort_by_name_fn v1)
                 \<and> \<not> findNameFn current (sort_by_name_fn v2))"
    using assms(2) by (auto simp: findNameFn_std_sort[OF assms(1)])
  have "IsSegregated sort_by_name_fn v1 v2 current edgeLength
          = (edgeLength \<le> length_threshold ?commons)"
    using len gate assms(3) assms(4)[unfolded cls]
    unfolding IsSegregated_def commons_of_def Let_def
    by (auto simp: not_less)
  then have main: "IsSegregated sort_by_name_fn v1 v2 current edgeLength =
           (edgeLength \<le> Min ((\<lambda>(a, b). get_length_threshold a + get_length_threshold b) ` set ?commons))"
    unfolding thr by (simp add: length_threshold_Min[OF ne])
  have tbl: "get_length_threshold e =
           (if road_priority_class e = MOTORWAY \<or> road_priority_class e = TRUNK then 30
            else if road_priority_class e = PRIMARY then 20
            else if road_priority_class e = SECONDARY \<or> road_priority_class e = TERTIARY then 10
            else 5)"
    by (simp add: get_length_threshold_def split: RoadPriorityClass.split)
  from main tbl show ?thesis by blast
qed

theorem IsSegregated_length_rule_witness:
  "std_sort_LessName (sort_key name :: 8 word EdgeInfo list \<Rightarrow> 8 word EdgeInfo list)
   \<and> (\<exists>e\<in>set neighbours_u. name e = name current_5th)
   \<and> 2 \<le> length (commons_of (sort_key name) neighbours_u neighbours_v)
   \<and> 2 \<le> length (filter (\<lambda>(a, b). road_class a = road_class b)
                     (commons_of (sort_key name) neighbours_u neighbours_v))
   \<and> IsSegregated (sort_key name) neighbours_u neighbours_v current_5th 40
   \<and> \<not> IsSegregated (sort_key name) neighbours_u neighbours_v current_5th 41
   \<and> Min ((\<lambda>(a, b). get_length_threshold a + get_length_threshold b) `
            set (commons_of (sort_key name) neighbours_u neighbours_v)) = 40"
proof -
  let ?C = "commons_of (sort_key name) neighbours_u neighbours_v"
  have srt: "std_sort_LessName (sort_key name :: 8 word EdgeInfo list \<Rightarrow> 8 word EdgeInfo list)"
    by (rule std_sort_LessName_sort_key)
  have ex: "\<exists>e\<in>set neighbours_u. name e = name current_5th"
    by (simp add: neighbours_u_def current_5th_def)
  then have gate: "name current_5th \<noteq> [] \<longrightarrow>
      (\<exists>e\<in>set neighbours_u. name e = name current_5th) \<or>
      (\<exists>e\<in>set neighbours_v. name e = name current_5th)"
    by blast
  have c2: "2 \<le> length ?C" by code_simp
  have e2: "2 \<le> length (filter (\<lambda>(a, b). road_class a = road_class b) ?C)" by code_simp
  have m: "Min ((\<lambda>(a, b). get_length_threshold a + get_length_threshold b) ` set ?C) = 40"
    by (simp add: commons_of_def neighbours_u_def neighbours_v_def get_length_threshold_def)
  have r40: "IsSegregated (sort_key name) neighbours_u neighbours_v current_5th 40"
    using IsSegregated_length_rule[OF srt gate c2 e2, where edgeLength = 40 and e = current_5th] m by simp
  have r41: "\<not> IsSegregated (sort_key name) neighbours_u neighbours_v current_5th 41"
    using IsSegregated_length_rule[OF srt gate c2 e2, where edgeLength = 41 and e = current_5th] m by simp
  from srt ex c2 e2 r40 r41 m show ?thesis by blast
qed

section \<open>Properties of the spatial index builder\<close>

lemma compact_segments_spec:
  assumes "length xs = length f" "out \<le> i" "i \<le> length f"
  shows "\<exists>xs'. compact_segments f i out i xs = Inr (out + length (filter id (drop i f)), xs')
           \<and> length xs' = length xs
           \<and> take (out + length (filter id (drop i f))) xs'
               = take out xs @ map fst (filter snd (zip (drop i xs) (drop i f)))"
  using assms
proof (induction "length f - i" arbitrary: i out xs)
  case 0
  then have "i = length f" by simp
  with "0.prems" show ?case
    by (subst compact_segments.simps) simp
next
  case (Suc d)
  then have lt: "i < length f" by simp
  then have lx: "i < length xs" using Suc.prems by simp
  have df: "drop i f = f ! i # drop (Suc i) f"
    using lt by (simp add: Cons_nth_drop_Suc)
  have dx: "drop i xs = xs ! i # drop (Suc i) xs"
    using lx by (simp add: Cons_nth_drop_Suc)
  show ?case
  proof (cases "f ! i")
    case True
    let ?xs1 = "xs[out := xs ! i]"
    have d: "d = length f - Suc i" using Suc.hyps(2) by simp
    have p: "length ?xs1 = length f" "Suc out \<le> Suc i" "Suc i \<le> length f"
      using Suc.prems lt by simp_all
    from Suc.hyps(1)[OF d p] obtain xs' where
      r: "compact_segments f (Suc i) (Suc out) (Suc i) ?xs1
            = Inr (Suc out + length (filter id (drop (Suc i) f)), xs')"
      and l: "length xs' = length ?xs1"
      and t: "take (Suc out + length (filter id (drop (Suc i) f))) xs'
             = take (Suc out) ?xs1 @ map fst (filter snd (zip (drop (Suc i) ?xs1) (drop (Suc i) f)))"
      by blast
    have ol: "out < length xs" using Suc.prems lx by simp
    have t1: "take (Suc out) ?xs1 = take out xs @ [xs ! i]"
      using ol by (simp add: take_Suc_conv_app_nth)
    have d1: "drop (Suc i) ?xs1 = drop (Suc i) xs"
      using Suc.prems(2) by simp
    have "compact_segments f i out i xs = Inr (out + length (filter id (drop i f)), xs')"
      using r lt lx True by (subst compact_segments.simps) (simp add: df)
    moreover have "take (out + length (filter id (drop i f))) xs'
               = take out xs @ map fst (filter snd (zip (drop i xs) (drop i f)))"
      using t True unfolding t1 d1 by (simp add: df dx)
    ultimately show ?thesis using l by simp
  next
    case False
    have d: "d = length f - Suc i" using Suc.hyps(2) by simp
    have p: "length xs = length f" "out \<le> Suc i" "Suc i \<le> length f"
      using Suc.prems lt by simp_all
    from Suc.hyps(1)[OF d p] obtain xs' where
      r: "compact_segments f (Suc i) out (Suc i) xs
            = Inr (out + length (filter id (drop (Suc i) f)), xs')"
      and l: "length xs' = length xs"
      and t: "take (out + length (filter id (drop (Suc i) f))) xs'
             = take out xs @ map fst (filter snd (zip (drop (Suc i) xs) (drop (Suc i) f)))"
      by blast
    have "compact_segments f i out i xs = Inr (out + length (filter id (drop i f)), xs')"
      using r lt lx False by (subst compact_segments.simps) (simp add: df)
    moreover have "take (out + length (filter id (drop i f))) xs'
               = take out xs @ map fst (filter snd (zip (drop i xs) (drop i f)))"
      using t False by (simp add: df dx)
    ultimately show ?thesis using l by simp
  qed
qed

lemma filter_id_empty_iff: "(length (filter id f) = 0) = (True \<notin> set f)"
  by (induction f) auto

lemma flagged_eq_nths:
  "length f = length xs \<Longrightarrow>
     map fst (filter snd (zip xs f)) = nths xs {i. i < length f \<and> f ! i}"
proof (induction xs arbitrary: f)
  case Nil
  then show ?case by simp
next
  case (Cons x xs)
  then obtain b g where f: "f = b # g" "length g = length xs"
    by (cases f) auto
  have "{j. Suc j \<in> {i. i < length (b # g) \<and> (b # g) ! i}} = {i. i < length g \<and> g ! i}"
    by auto
  then show ?case
    using Cons.IH[OF f(2)] f by (simp add: nths_Cons)
qed

text \<open>
  Claim C7. Given \<open>node_is_startpoint\<close> and \<open>edge_based_node_segments\<close> of equal
  length, \<open>BuildRTree\<close> fails (and then with the "no snappable edges" exception) exactly
  when \<open>node_is_startpoint\<close> has no true entry; when some entry is true, the R-tree is
  built over exactly the segments whose index is flagged, in their order.
\<close>

theorem BuildRTree_startpoints:
  assumes "length node_is_startpoint = length edge_based_node_segments"
  shows "(BuildRTree edge_based_node_segments node_is_startpoint coordinates = Inl NoSnappableEdges)
           = (True \<notin> set node_is_startpoint)
       \<and> (\<exists>e. BuildRTree edge_based_node_segments node_is_startpoint coordinates = Inl e)
           = (True \<notin> set node_is_startpoint)
       \<and> (True \<in> set node_is_startpoint \<longrightarrow>
            BuildRTree edge_based_node_segments node_is_startpoint coordinates
              = Inr (StaticRTree
                       (map fst (filter snd (zip edge_based_node_segments node_is_startpoint)))
                       coordinates))
       \<and> map fst (filter snd (zip edge_based_node_segments node_is_startpoint))
           = nths edge_based_node_segments {i. i < length node_is_startpoint \<and> node_is_startpoint ! i}"
proof -
  let ?f = node_is_startpoint and ?s = edge_based_node_segments
  let ?k = "length (filter id ?f)"
  obtain xs' where
    r: "compact_segments ?f 0 0 0 ?s = Inr (?k, xs')"
    and t: "take ?k xs' = map fst (filter snd (zip ?s ?f))"
    using compact_segments_spec[of ?s ?f 0 0] assms by auto
  have B: "BuildRTree ?s ?f coordinates
           = (if ?k = 0 then Inl NoSnappableEdges
              else Inr (StaticRTree (map fst (filter snd (zip ?s ?f))) coordinates))"
    using assms r t by (simp add: BuildRTree_def Let_def)
  have k0: "(?k = 0) = (True \<notin> set ?f)"
    by (rule filter_id_empty_iff)
  have n: "map fst (filter snd (zip ?s ?f)) = nths ?s {i. i < length ?f \<and> ?f ! i}"
    by (rule flagged_eq_nths[OF assms])
  from B k0 n show ?thesis by auto
qed

theorem BuildRTree_startpoints_witness:
  "length [False, True, True] = length [''s0'', ''s1'', ''s2'']
   \<and> BuildRTree [''s0'', ''s1'', ''s2''] [False, True, True] [0::nat, 1]
       = Inr (StaticRTree [''s1'', ''s2''] [0, 1])
   \<and> BuildRTree [''s0'', ''s1'', ''s2''] [False, False, False] [0::nat, 1] = Inl NoSnappableEdges"
proof -
  have l: "length [False, True, True] = length [''s0'', ''s1'', ''s2'']" by simp
  have l': "length [False, False, False] = length [''s0'', ''s1'', ''s2'']" by simp
  show ?thesis
    using BuildRTree_startpoints[OF l, of "[0::nat, 1]"] BuildRTree_startpoints[OF l', of "[0::nat, 1]"]
    by simp
qed

section \<open>Properties of the component labelling\<close>

text \<open>
  The weight assertion of \<open>FindComponents\<close> holds for every edge: a weight that is not
  below 1 as a signed number is not 0, and otherwise the maximum is 1.
\<close>

lemma weight_assertion_always: "weight_assertion edge"
proof -
  have "\<not> word_sless w 1 \<Longrightarrow> w \<noteq> 0" for w :: "32 word"
    by (auto simp: word_sless_alt)
  then show ?thesis
    by (auto simp: weight_assertion_def std_max_def word_gt_0)
qed

lemma push_input_edges_Inr:
  "push_input_edges n es acc = Inr edges \<Longrightarrow>
     set acc \<subseteq> set edges \<and> (\<forall>e\<in>set es. source e < n \<and> target e < n)"
proof (induction es arbitrary: acc)
  case Nil
  then show ?case by simp
next
  case (Cons e es)
  then show ?case
    by (auto simp: Let_def split: if_splits dest!: Cons.IH)
qed

lemma push_input_edges_total:
  "\<forall>e\<in>set es. source e < n \<and> target e < n \<Longrightarrow> \<exists>edges. push_input_edges n es acc = Inr edges"
  by (induction es arbitrary: acc) (auto simp: Let_def weight_assertion_always)

lemma push_mate_edges_Inr:
  "push_mate_edges n segs acc = Inr edges \<Longrightarrow>
     set acc \<subseteq> set edges \<and>
     (\<forall>s\<in>set segs. enabled (reverse_segment_id s) \<longrightarrow>
        id' (forward_segment_id s) < n \<and> id' (reverse_segment_id s) < n \<and>
        (id' (forward_segment_id s), id' (reverse_segment_id s)) \<in> set edges \<and>
        (id' (reverse_segment_id s), id' (forward_segment_id s)) \<in> set edges)"
proof (induction segs arbitrary: acc)
  case Nil
  then show ?case by simp
next
  case (Cons s segs)
  show ?case
  proof (cases "enabled (reverse_segment_id s)")
    case True
    with Cons.prems have
      f: "id' (forward_segment_id s) < n" and r: "id' (reverse_segment_id s) < n"
      and rec: "push_mate_edges n segs
            (acc @ [(id' (forward_segment_id s), id' (reverse_segment_id s)),
                    (id' (reverse_segment_id s), id' (forward_segment_id s))]) = Inr edges"
      by (auto split: if_splits)
    from Cons.IH[OF rec] f r True show ?thesis by auto
  next
    case False
    with Cons.prems have rec: "push_mate_edges n segs acc = Inr edges" by simp
    from Cons.IH[OF rec] False show ?thesis by auto
  qed
qed

lemma push_mate_edges_total:
  "\<forall>s\<in>set segs. enabled (reverse_segment_id s) \<longrightarrow>
        id' (forward_segment_id s) < n \<and> id' (reverse_segment_id s) < n \<Longrightarrow>
   \<exists>edges. push_mate_edges n segs acc = Inr edges"
  by (induction segs arbitrary: acc) auto

lemma build_uncontracted_graph_Inr:
  assumes "build_uncontracted_graph n es segs = Inr g"
  shows "number_of_nodes g = n
       \<and> (\<forall>e\<in>set es. source e < n \<and> target e < n)
       \<and> (\<forall>s\<in>set segs. enabled (reverse_segment_id s) \<longrightarrow>
            id' (forward_segment_id s) < n \<and> id' (reverse_segment_id s) < n \<and>
            (id' (forward_segment_id s), id' (reverse_segment_id s)) \<in> set (edge_list g) \<and>
            (id' (reverse_segment_id s), id' (forward_segment_id s)) \<in> set (edge_list g))"
proof -
  from assms obtain e1 e2 where
    a: "push_input_edges n es [] = Inr e1" and b: "push_mate_edges n segs e1 = Inr e2"
    and g: "g = \<lparr>number_of_nodes = n, edge_list = remdups_adj (sort e2)\<rparr>"
    by (auto simp: build_uncontracted_graph_def split: sum.splits)
  have "set (edge_list g) = set e2" using g by simp
  with push_input_edges_Inr[OF a] push_mate_edges_Inr[OF b] g show ?thesis by simp
qed

lemma label_components_Inr:
  assumes "label_components small cs n i ns = Inr ns'"
  shows "length ns' = length ns
       \<and> (i < n \<longrightarrow> n \<le> length ns)
       \<and> (\<forall>j. i \<le> j \<and> j < n \<longrightarrow>
             component_id (ns' ! j)
               = \<lparr>component = 1 + GetComponentID cs j,
                  is_tiny = (GetComponentSize cs (GetComponentID cs j) < small)\<rparr>
             \<and> EdgeBasedNode.more (ns' ! j) = EdgeBasedNode.more (ns ! j))
       \<and> (\<forall>j. j < i \<or> n \<le> j \<longrightarrow> ns' ! j = ns ! j)"
  using assms
proof (induction "n - i" arbitrary: i ns)
  case 0
  then have "\<not> i < n" by simp
  with "0.prems" have "ns' = ns"
    by (subst (asm) label_components.simps) simp
  with \<open>\<not> i < n\<close> show ?case by auto
next
  case (Suc d)
  then have lt: "i < n" by simp
  let ?ns1 = "ns[i := (ns ! i)
                \<lparr>component_id := \<lparr>component = 1 + GetComponentID cs i,
                     is_tiny = (GetComponentSize cs (GetComponentID cs i) < small)\<rparr>\<rparr>]"
  from Suc.prems lt have il: "i < length ns"
    by (subst (asm) label_components.simps) (simp add: Let_def split: if_splits)
  from Suc.prems lt il have rec: "label_components small cs n (Suc i) ?ns1 = Inr ns'"
    by (subst (asm) label_components.simps) (simp add: Let_def)
  have d: "d = n - Suc i" using Suc.hyps(2) by simp
  note IH = Suc.hyps(1)[OF d rec]
  have len: "length ns' = length ns" using IH by simp
  have nle: "n \<le> length ns"
  proof (cases "Suc i < n")
    case True
    then show ?thesis using IH by simp
  next
    case False
    then show ?thesis using lt il by simp
  qed
  have at_i: "ns' ! i = ?ns1 ! i" using IH by simp
  have body: "component_id (ns' ! j)
               = \<lparr>component = 1 + GetComponentID cs j,
                  is_tiny = (GetComponentSize cs (GetComponentID cs j) < small)\<rparr>
             \<and> EdgeBasedNode.more (ns' ! j) = EdgeBasedNode.more (ns ! j)"
    if "i \<le> j" "j < n" for j
  proof (cases "j = i")
    case True
    then show ?thesis using at_i il by simp
  next
    case False
    then have "Suc i \<le> j" using that by simp
    then show ?thesis using IH that False by simp
  qed
  have rest: "ns' ! j = ns ! j" if "j < i \<or> n \<le> j" for j
  proof -
    have "ns' ! j = ?ns1 ! j" using IH that by auto
    moreover have "j \<noteq> i" using that lt by auto
    ultimately show ?thesis by simp
  qed
  from len nle body rest show ?case by blast
qed

lemma label_components_total:
  "n \<le> length ns \<Longrightarrow> \<exists>ns'. label_components small cs n i ns = Inr ns'"
proof (induction "n - i" arbitrary: i ns)
  case 0
  then show ?case by (subst label_components.simps) simp
next
  case (Suc d)
  then have lt: "i < n" by simp
  have d: "d = n - Suc i" using Suc.hyps(2) by simp
  let ?ns1 = "ns[i := (ns ! i)
                \<lparr>component_id := \<lparr>component = 1 + GetComponentID cs i,
                     is_tiny = (GetComponentSize cs (GetComponentID cs i) < small)\<rparr>\<rparr>]"
  have "n \<le> length ?ns1" using Suc.prems by simp
  from Suc.hyps(1)[OF d this] obtain ns' where
    "label_components small cs n (Suc i) ?ns1 = Inr ns'" by blast
  then show ?case
    using lt Suc.prems by (subst label_components.simps) (simp add: Let_def)
qed

lemma reaches_refl: "reaches es u u"
  by (simp add: reaches_def)

lemma reaches_trans: "reaches es u v \<Longrightarrow> reaches es v w \<Longrightarrow> reaches es u w"
  by (auto simp: reaches_def intro: trancl_trans)

lemma reaches_edge: "(u, v) \<in> set es \<Longrightarrow> reaches es u v"
  by (auto simp: reaches_def)

lemma strongly_connected_refl: "strongly_connected es u u"
  by (simp add: strongly_connected_def reaches_refl)

lemma strongly_connected_sym: "strongly_connected es u v \<Longrightarrow> strongly_connected es v u"
  by (simp add: strongly_connected_def)

lemma strongly_connected_trans:
  "strongly_connected es u v \<Longrightarrow> strongly_connected es v w \<Longrightarrow> strongly_connected es u w"
  unfolding strongly_connected_def by (blast intro: reaches_trans)

lemma strongly_connected_cong:
  assumes "strongly_connected es u v"
  shows "strongly_connected es u = strongly_connected es v"
proof
  fix w
  show "strongly_connected es u w = strongly_connected es v w"
    using assms by (blast intro: strongly_connected_trans strongly_connected_sym)
qed

lemma component_root_cong:
  "strongly_connected (edge_list g) u v \<Longrightarrow> u < number_of_nodes g \<Longrightarrow> v < number_of_nodes g \<Longrightarrow>
     component_root g u = component_root g v"
proof -
  assume sc: "strongly_connected (edge_list g) u v"
    and u: "u < number_of_nodes g" and v: "v < number_of_nodes g"
  have "filter (strongly_connected (edge_list g) u) [0..<number_of_nodes g]
      = filter (strongly_connected (edge_list g) v) [0..<number_of_nodes g]"
    by (simp add: strongly_connected_cong[OF sc])
  moreover have "u \<in> set (filter (strongly_connected (edge_list g) u) [0..<number_of_nodes g])"
    using u by (simp add: strongly_connected_refl)
  then have "filter (strongly_connected (edge_list g) u) [0..<number_of_nodes g] \<noteq> []"
    by (metis empty_iff list.set(1))
  ultimately show ?thesis
    by (simp add: component_root_def split: list.splits)
qed

lemma component_index_cong:
  "strongly_connected (edge_list g) u v \<Longrightarrow> u < number_of_nodes g \<Longrightarrow> v < number_of_nodes g \<Longrightarrow>
     component_index g u = component_index g v"
  by (simp add: component_index_def component_root_cong)

lemma component_root_props:
  assumes "v < number_of_nodes g"
  shows "strongly_connected (edge_list g) v (component_root g v)"
    and "component_root g v < number_of_nodes g"
    and "component_root g (component_root g v) = component_root g v"
proof -
  let ?F = "filter (strongly_connected (edge_list g) v) [0..<number_of_nodes g]"
  have "v \<in> set ?F" using assms by (simp add: strongly_connected_refl)
  then obtain r rs where F: "?F = r # rs" by (cases ?F) auto
  then have root: "component_root g v = r" by (simp add: component_root_def)
  have "r \<in> set ?F" using F by simp
  then show sc: "strongly_connected (edge_list g) v (component_root g v)"
    and lt: "component_root g v < number_of_nodes g"
    using root by auto
  have "component_root g (component_root g v) = component_root g v"
    using component_root_cong[OF strongly_connected_sym[OF sc] lt assms] .
  then show "component_root g (component_root g v) = component_root g v" .
qed

lemma component_index_eq_iff:
  assumes u: "u < number_of_nodes g" and v: "v < number_of_nodes g"
  shows "(component_index g u = component_index g v) = strongly_connected (edge_list g) u v"
proof
  assume "strongly_connected (edge_list g) u v"
  then show "component_index g u = component_index g v"
    using u v by (rule component_index_cong)
next
  assume eq: "component_index g u = component_index g v"
  let ?n = "number_of_nodes g"
  let ?R = "\<lambda>b. {r. r < ?n \<and> component_root g r = r \<and> r < b}"
  have idx: "component_index g w = card (?R (component_root g w))" for w
  proof -
    have "component_index g w
        = length (filter (\<lambda>r. component_root g r = r \<and> r < component_root g w) [0..<?n])"
      by (simp add: component_index_def)
    also have "\<dots> = card (set (filter (\<lambda>r. component_root g r = r \<and> r < component_root g w) [0..<?n]))"
      by (rule distinct_card[symmetric]) simp
    also have "set (filter (\<lambda>r. component_root g r = r \<and> r < component_root g w) [0..<?n])
             = ?R (component_root g w)" by auto
    finally show ?thesis .
  qed
  have strict: "card (?R a) < card (?R b)"
    if "a < b" "a < ?n" "component_root g a = a" for a b
  proof (rule psubset_card_mono)
    show "finite (?R b)" by simp
    show "?R a \<subset> ?R b" using that by auto
  qed
  let ?ru = "component_root g u" and ?rv = "component_root g v"
  have "?ru = ?rv"
  proof (rule ccontr)
    assume "?ru \<noteq> ?rv"
    then consider "?ru < ?rv" | "?rv < ?ru" by linarith
    then show False
    proof cases
      case 1
      from strict[OF 1 component_root_props(2)[OF u] component_root_props(3)[OF u]]
      show False using eq idx by simp
    next
      case 2
      from strict[OF 2 component_root_props(2)[OF v] component_root_props(3)[OF v]]
      show False using eq idx by simp
    qed
  qed
  then show "strongly_connected (edge_list g) u v"
    using component_root_props(1)[OF u] component_root_props(1)[OF v]
    by (metis strongly_connected_sym strongly_connected_trans)
qed

lemma FindComponents_Inr:
  assumes "FindComponents Run small n es segs nc = Inr nc'"
  shows "\<exists>g. build_uncontracted_graph n es segs = Inr g
           \<and> label_components small (Run g) n 0 (nodes nc) = Inr (nodes nc')"
  using assms
  by (auto simp: FindComponents_def Let_def split: sum.splits)

text \<open>
  Claim C4. After \<open>FindComponents\<close>, every edge-based node id below
  \<open>number_of_edge_based_nodes\<close> carries a component id equal to 1 plus the component
  index the search gives it, and its tiny flag is set exactly when the size of that
  component is strictly less than \<open>small_component_size\<close>. This holds for every
  component search \<open>Run\<close>; \<open>g\<close> is the graph \<open>FindComponents\<close> builds.
\<close>

theorem FindComponents_labels:
  assumes "FindComponents Run small_component_size number_of_edge_based_nodes input_edge_list
             input_node_segments nodes_container = Inr nodes_container'"
  shows "\<exists>g. build_uncontracted_graph number_of_edge_based_nodes input_edge_list
               input_node_segments = Inr g
           \<and> (\<forall>node_id<number_of_edge_based_nodes.
                 component (component_id (nodes nodes_container' ! node_id))
                   = 1 + GetComponentID (Run g) node_id
               \<and> is_tiny (component_id (nodes nodes_container' ! node_id))
                   = (GetComponentSize (Run g) (GetComponentID (Run g) node_id)
                        < small_component_size))"
proof -
  from FindComponents_Inr[OF assms] obtain g where
    g: "build_uncontracted_graph number_of_edge_based_nodes input_edge_list
          input_node_segments = Inr g"
    and l: "label_components small_component_size (Run g) number_of_edge_based_nodes 0
              (nodes nodes_container) = Inr (nodes nodes_container')"
    by blast
  from label_components_Inr[OF l] g show ?thesis by auto
qed

theorem FindComponents_labels_witness:
  "FindComponents TarjanSCC_Run 2 4 [turn_0_2] three_segments unlabelled = Inr labelled
   \<and> (\<exists>g. build_uncontracted_graph 4 [turn_0_2] three_segments = Inr g
          \<and> component (component_id (nodes labelled ! 2)) = 1 + GetComponentID (TarjanSCC_Run g) 2
          \<and> is_tiny (component_id (nodes labelled ! 2))
              = (GetComponentSize (TarjanSCC_Run g) (GetComponentID (TarjanSCC_Run g) 2) < 2))
   \<and> component (component_id (nodes labelled ! 2)) = 2
   \<and> is_tiny (component_id (nodes labelled ! 2))"
proof -
  have run: "FindComponents TarjanSCC_Run 2 4 [turn_0_2] three_segments unlabelled = Inr labelled"
    by code_simp
  have "(2::nat) < 4" by simp
  with FindComponents_labels[OF run] have
    "\<exists>g. build_uncontracted_graph 4 [turn_0_2] three_segments = Inr g
          \<and> component (component_id (nodes labelled ! 2)) = 1 + GetComponentID (TarjanSCC_Run g) 2
          \<and> is_tiny (component_id (nodes labelled ! 2))
              = (GetComponentSize (TarjanSCC_Run g) (GetComponentID (TarjanSCC_Run g) 2) < 2)"
    by blast
  moreover have "component (component_id (nodes labelled ! 2)) = 2"
    "is_tiny (component_id (nodes labelled ! 2))"
    by (simp_all add: labelled_def)
  ultimately show ?thesis using run by blast
qed

text \<open>
  Claim C3. For every edge-based node segment whose reverse segment id is enabled, after
  \<open>FindComponents\<close> the component id recorded for the forward segment id equals the one
  recorded for the reverse segment id (and so does the tiny flag): the two mate edges
  put both nodes in one strongly connected component.
\<close>

theorem FindComponents_mates:
  assumes "FindComponents TarjanSCC_Run small_component_size number_of_edge_based_nodes
             input_edge_list input_node_segments nodes_container = Inr nodes_container'"
    and "segment \<in> set input_node_segments"
    and "enabled (reverse_segment_id segment)"
  shows "component_id (nodes nodes_container' ! id' (forward_segment_id segment))
       = component_id (nodes nodes_container' ! id' (reverse_segment_id segment))"
proof -
  let ?f = "id' (forward_segment_id segment)" and ?r = "id' (reverse_segment_id segment)"
  let ?n = number_of_edge_based_nodes
  from FindComponents_Inr[OF assms(1)] obtain g where
    g: "build_uncontracted_graph ?n input_edge_list input_node_segments = Inr g"
    and l: "label_components small_component_size (TarjanSCC_Run g) ?n 0
              (nodes nodes_container) = Inr (nodes nodes_container')"
    by blast
  from build_uncontracted_graph_Inr[OF g] assms(2,3) have
    n: "number_of_nodes g = ?n" and f: "?f < ?n" and r: "?r < ?n"
    and fr: "(?f, ?r) \<in> set (edge_list g)" and rf: "(?r, ?f) \<in> set (edge_list g)"
    by auto
  have "strongly_connected (edge_list g) ?f ?r"
    using fr rf by (simp add: strongly_connected_def reaches_edge)
  then have idx: "component_index g ?f = component_index g ?r"
    using f r n by (simp add: component_index_cong)
  have "component_id (nodes nodes_container' ! j)
               = \<lparr>component = 1 + GetComponentID (TarjanSCC_Run g) j,
                  is_tiny = (GetComponentSize (TarjanSCC_Run g) (GetComponentID (TarjanSCC_Run g) j)
                               < small_component_size)\<rparr>" if "j < ?n" for j
    using label_components_Inr[OF l] that by simp
  from this[OF f] this[OF r] idx show ?thesis
    by (simp add: TarjanSCC_Run_def)
qed

theorem FindComponents_mates_witness:
  "FindComponents TarjanSCC_Run 2 4 [turn_0_2] three_segments unlabelled = Inr labelled
   \<and> hd three_segments \<in> set three_segments
   \<and> enabled (reverse_segment_id (hd three_segments))
   \<and> component_id (nodes labelled ! 0) = component_id (nodes labelled ! 1)
   \<and> component_id (nodes labelled ! 0) \<noteq> component_id (nodes labelled ! 2)"
proof -
  have run: "FindComponents TarjanSCC_Run 2 4 [turn_0_2] three_segments unlabelled = Inr labelled"
    by code_simp
  have mem: "hd three_segments \<in> set three_segments"
    by (simp add: three_segments_def)
  have en: "enabled (reverse_segment_id (hd three_segments))"
    by (simp add: three_segments_def)
  have ids: "id' (forward_segment_id (hd three_segments)) = 0"
    "id' (reverse_segment_id (hd three_segments)) = 1"
    by (simp_all add: three_segments_def)
  have "component_id (nodes labelled ! 0) = component_id (nodes labelled ! 1)"
    using FindComponents_mates[OF run mem en] unfolding ids by simp
  moreover have "component_id (nodes labelled ! 0) \<noteq> component_id (nodes labelled ! 2)"
    by (simp add: labelled_def)
  ultimately show ?thesis using run mem en by blast
qed

text \<open>
  Every run of \<open>FindComponents\<close> whose assertions pass has both endpoint ids of every
  input edge below \<open>number_of_edge_based_nodes\<close>.
\<close>

lemma FindComponents_edge_ids:
  assumes "FindComponents Run small_component_size number_of_edge_based_nodes input_edge_list
             input_node_segments nodes_container = Inr nodes_container'"
    and "edge \<in> set input_edge_list"
  shows "source edge < number_of_edge_based_nodes \<and> target edge < number_of_edge_based_nodes"
proof -
  from FindComponents_Inr[OF assms(1)] obtain g where
    "build_uncontracted_graph number_of_edge_based_nodes input_edge_list input_node_segments = Inr g"
    by blast
  from build_uncontracted_graph_Inr[OF this] assms(2) show ?thesis by blast
qed

text \<open>
  Claim C1. For every edge-based edge of the list passed to \<open>FindComponents\<close>, both
  endpoint ids are below \<open>number_of_edge_based_nodes\<close> and the weight is at least 1.
  \<open>FindComponents\<close> asserts the three conditions, the last under the message "edge
  distance < 1"; but the asserted condition is on \<open>std::max(weight, 1)\<close> and holds for
  every weight. At the input below, whose one edge has weight 0, every assertion passes
  and the nodes are labelled, although the edge does not satisfy the claim.
\<close>

theorem FindComponents_accepts_weight_0:
  "weight (data turn_0_2) = 0
   \<and> (\<forall>edge. weight_assertion edge)
   \<and> FindComponents TarjanSCC_Run 2 4 [turn_0_2] three_segments unlabelled = Inr labelled
   \<and> \<not> list_all (P1_edge 4) [turn_0_2]"
proof -
  have w: "weight (data turn_0_2) = 0"
    by (simp add: turn_0_2_def)
  have a: "\<forall>edge. weight_assertion edge"
    by (simp add: weight_assertion_always)
  have run: "FindComponents TarjanSCC_Run 2 4 [turn_0_2] three_segments unlabelled = Inr labelled"
    by code_simp
  have "\<not> P1_edge 4 turn_0_2"
    by (simp add: P1_edge_def turn_0_2_def word_sle_eq)
  with w a run show ?thesis by simp
qed

lemma FindComponents_total:
  assumes "\<forall>e\<in>set es. source e < n \<and> target e < n"
    and "\<forall>s\<in>set segs. enabled (reverse_segment_id s) \<longrightarrow>
           id' (forward_segment_id s) < n \<and> id' (reverse_segment_id s) < n"
    and "n \<le> length (nodes nc)"
  shows "\<exists>nc'. FindComponents Run small n es segs nc = Inr nc'"
proof -
  obtain e1 where a: "push_input_edges n es [] = Inr e1"
    using push_input_edges_total[OF assms(1)] by blast
  obtain e2 where b: "push_mate_edges n segs e1 = Inr e2"
    using push_mate_edges_total[OF assms(2)] by blast
  let ?g = "\<lparr>number_of_nodes = n, edge_list = remdups_adj (sort e2)\<rparr>"
  obtain ns' where c: "label_components small (Run ?g) n 0 (nodes nc) = Inr ns'"
    using label_components_total[OF assms(3)] by blast
  show ?thesis
    using a b c by (simp add: FindComponents_def build_uncontracted_graph_def Let_def)
qed

section \<open>Properties of the class-name and excludable-class tables\<close>

lemma add_class_names_Inr:
  assumes "add_class_names mci declared cm = Inr cm'"
  shows "(\<forall>nm\<in>set declared. isValidClassName nm)
       \<and> set (map fst cm') = set (map fst cm) \<union> set declared
       \<and> (distinct (map fst cm) \<longrightarrow> distinct (map fst cm'))
       \<and> (cm' = cm \<or> length cm' \<le> mci + 1)
       \<and> length cm \<le> length cm'"
  using assms
proof (induction declared arbitrary: cm)
  case Nil
  then show ?case by simp
next
  case (Cons nm rest)
  from Cons.prems have valid: "isValidClassName nm"
    by (auto split: if_splits)
  show ?case
  proof (cases "map_of cm nm")
    case None
    then have fresh: "nm \<notin> set (map fst cm)"
      by (simp add: map_of_eq_None_iff)
    let ?cm1 = "cm @ [(nm, getClassData (length cm))]"
    from Cons.prems valid None have le: "length cm \<le> mci"
      and rec: "add_class_names mci rest ?cm1 = Inr cm'"
      by (auto simp: Let_def split: if_splits)
    note IH = Cons.IH[OF rec]
    have "cm' = cm \<or> length cm' \<le> mci + 1"
      using IH le by auto
    moreover have "distinct (map fst cm) \<longrightarrow> distinct (map fst cm')"
      using IH fresh by auto
    moreover have "set (map fst cm') = set (map fst cm) \<union> set (nm # rest)"
      using IH by auto
    moreover have "length cm \<le> length cm'" using IH by auto
    ultimately show ?thesis using IH valid by auto
  next
    case (Some d)
    then have known: "nm \<in> set (map fst cm)"
      by (metis map_of_eq_None_iff option.distinct(1) set_map)
    from Cons.prems valid Some have rec: "add_class_names mci rest cm = Inr cm'"
      by simp
    from Cons.IH[OF rec] valid known show ?thesis by auto
  qed
qed

lemma check_class_names_Inr:
  "(check_class_names declared cm = Inr ()) = (set (map fst cm) \<subseteq> set declared)"
  by (induction cm) auto

lemma check_class_names_Inl:
  "check_class_names declared cm = Inl e \<Longrightarrow> \<exists>nm. e = UnknownClassName nm \<and> nm \<in> set (map fst cm) \<and> nm \<notin> set declared"
  by (induction cm) (auto split: if_splits)

lemma write_class_names_Inl:
  "write_class_names cm pp = Inl e \<Longrightarrow> e = AssertionFailed"
  by (induction cm arbitrary: pp) (auto simp: Let_def split: if_splits)

lemma write_class_names_Inr:
  "\<forall>p\<in>set cm. length (getClassIndexes (snd p)) = 1 \<Longrightarrow>
   write_class_names cm pp
     = Inr (fold (\<lambda>p. ProfileProperties_SetClassName (hd (getClassIndexes (snd p))) (fst p)) cm pp)"
  by (induction cm arbitrary: pp) (auto simp: Let_def)

lemma fold_SetClassName_excludable:
  "excludable_classes (fold (\<lambda>p. ProfileProperties_SetClassName (f p) (fst p)) cm pp)
     = excludable_classes pp"
  by (induction cm arbitrary: pp) (auto simp: ProfileProperties_SetClassName_def)

lemma fold_SetClassName_other:
  "\<forall>p\<in>set cm. f p \<noteq> i \<Longrightarrow>
   class_names (fold (\<lambda>p. ProfileProperties_SetClassName (f p) (fst p)) cm pp) i
     = class_names pp i"
  by (induction cm arbitrary: pp) (auto simp: ProfileProperties_SetClassName_def)

lemma fold_SetClassName_written:
  assumes "p \<in> set cm" and "\<forall>q\<in>set cm. f q = f p \<longrightarrow> q = p"
  shows "class_names (fold (\<lambda>p. ProfileProperties_SetClassName (f p) (fst p)) cm pp) (f p) = fst p"
  using assms
proof (induction cm arbitrary: pp)
  case Nil
  then show ?case by simp
next
  case (Cons q cm)
  show ?case
  proof (cases "p \<in> set cm")
    case True
    with Cons show ?thesis by simp
  next
    case False
    with Cons.prems have qp: "q = p" by simp
    have "\<forall>r\<in>set cm. f r \<noteq> f p" using Cons.prems(2) False by auto
    then have "class_names (fold (\<lambda>p. ProfileProperties_SetClassName (f p) (fst p)) cm
                 (ProfileProperties_SetClassName (f p) (fst p) pp)) (f p)
             = class_names (ProfileProperties_SetClassName (f p) (fst p) pp) (f p)"
      by (rule fold_SetClassName_other)
    also have "\<dots> = fst p" by (simp add: ProfileProperties_SetClassName_def)
    finally show ?thesis by (simp add: qp)
  qed
qed

lemma getClassIndexes_getClassData:
  assumes "i < LENGTH('w::len)"
  shows "getClassIndexes (getClassData i :: 'w word) = [i]"
proof -
  have b: "bit (2 ^ i :: 'w word) n = (n = i)" if "n < LENGTH('w)" for n
    using that assms by (auto simp: bit_exp_iff)
  have "filter (bit (2 ^ i :: 'w word)) [0..<LENGTH('w)] = filter (\<lambda>n. n = i) [0..<LENGTH('w)]"
    by (rule filter_cong) (simp_all add: b)
  also have "\<dots> = [i]"
  proof -
    have "[0..<LENGTH('w)] = [0..<i] @ [i] @ [Suc i..<LENGTH('w)]"
    proof -
      have "[0..<i + (LENGTH('w) - i)] = [0..<i] @ [i..<i + (LENGTH('w) - i)]"
        by (rule upt_add_eq_append) simp
      then have "[0..<LENGTH('w)] = [0..<i] @ [i..<LENGTH('w)]"
        using assms by simp
      also have "[i..<LENGTH('w)] = i # [Suc i..<LENGTH('w)]"
        using assms by (simp add: upt_conv_Cons)
      finally show ?thesis by simp
    qed
    then show ?thesis by (simp add: filter_empty_conv)
  qed
  finally show ?thesis by (simp add: getClassIndexes_def getClassData_def)
qed

lemma write_class_names_assert:
  "\<not> (\<forall>p\<in>set cm. length (getClassIndexes (snd p)) = 1) \<Longrightarrow>
     write_class_names cm pp = Inl AssertionFailed"
  by (induction cm arbitrary: pp) (auto simp: Let_def)

text \<open>
  Claim C9. When the declared class-name list is empty, \<open>SetClassNames\<close> throws no
  exception, whatever \<open>classes_map\<close> holds: no name is validated and no class is
  checked against a declared list. Every entry of \<open>classes_map\<close> is written to the
  profile properties, one \<open>SetClassName\<close> per entry, and the name of every entry whose
  index no other entry shares is found at that index. The one other outcome is the
  assertion of the write loop, which fails when an entry is not the mask of one class.
\<close>

theorem SetClassNames_undeclared:
  fixes classes_map :: "'w::len word ClassesMap"
    and profile_properties :: "'w word ProfileProperties"
  defines "index_of \<equiv> \<lambda>p :: string \<times> 'w word. hd (getClassIndexes (snd p))"
  defines "written \<equiv>
             fold (\<lambda>p. ProfileProperties_SetClassName (index_of p) (fst p))
               classes_map profile_properties"
  shows "SetClassNames MAX_CLASS_INDEX [] classes_map profile_properties
           = (if \<forall>p\<in>set classes_map. length (getClassIndexes (snd p)) = 1
              then Inr (classes_map, written)
              else Inl AssertionFailed)
       \<and> (\<forall>e. SetClassNames MAX_CLASS_INDEX [] classes_map profile_properties = Inl e
              \<longrightarrow> \<not> is_exception e)
       \<and> (\<forall>p\<in>set classes_map.
             (\<forall>q\<in>set classes_map. index_of q = index_of p \<longrightarrow> q = p)
             \<longrightarrow> class_names written (index_of p) = fst p)"
proof -
  have res: "SetClassNames MAX_CLASS_INDEX [] classes_map profile_properties
           = (if \<forall>p\<in>set classes_map. length (getClassIndexes (snd p)) = 1
              then Inr (classes_map, written)
              else Inl AssertionFailed)"
  proof (cases "\<forall>p\<in>set classes_map. length (getClassIndexes (snd p)) = 1")
    case True
    then show ?thesis
      by (simp add: SetClassNames_def write_class_names_Inr written_def index_of_def)
  next
    case False
    then show ?thesis
      by (simp add: SetClassNames_def write_class_names_assert)
  qed
  have never: "\<not> is_exception e"
    if "SetClassNames MAX_CLASS_INDEX [] classes_map profile_properties = Inl e" for e
    using that unfolding res by (auto split: if_splits)
  have names: "class_names written (index_of p) = fst p"
    if "p \<in> set classes_map" "\<forall>q\<in>set classes_map. index_of q = index_of p \<longrightarrow> q = p" for p
    unfolding written_def using that by (rule fold_SetClassName_written)
  from res never names show ?thesis by blast
qed

theorem SetClassNames_undeclared_witness:
  "\<not> isValidClassName ''toll-road''
   \<and> (\<exists>profile_properties'.
         SetClassNames 7 [] (parsed_classes_map one_way_used_dash) no_properties
           = Inr (parsed_classes_map one_way_used_dash, profile_properties')
         \<and> class_names profile_properties' 0 = ''toll-road''
         \<and> class_names profile_properties' 1 = ''ferry'')
   \<and> SetClassNames 7 [] [(''toll'', 3 :: 8 word)] no_properties = Inl AssertionFailed"
proof -
  let ?cm = "parsed_classes_map one_way_used_dash"
  let ?w = "fold (\<lambda>p. ProfileProperties_SetClassName (hd (getClassIndexes (snd p))) (fst p))
              ?cm no_properties"
  have cm: "?cm = [(''toll-road'', 1), (''ferry'', 2)]"
    by (simp add: one_way_used_dash_def)
  have idx: "getClassIndexes (1 :: 8 word) = [0]" "getClassIndexes (2 :: 8 word) = [1]"
    "getClassIndexes (3 :: 8 word) = [0, 1]"
    by code_simp+
  note T = SetClassNames_undeclared[of 7 ?cm no_properties]
  have r: "SetClassNames 7 [] ?cm no_properties = Inr (?cm, ?w)"
    using T by (simp add: cm idx)
  have "class_names ?w 0 = ''toll-road''" "class_names ?w 1 = ''ferry''"
    using T by (simp_all add: cm idx)
  moreover have "\<not> isValidClassName ''toll-road''"
    by (simp add: isValidClassName_def isalnum_def)
  moreover have "SetClassNames 7 [] [(''toll'', 3 :: 8 word)] no_properties = Inl AssertionFailed"
    using SetClassNames_undeclared[of 7 "[(''toll'', 3 :: 8 word)]" no_properties]
    by (simp add: idx)
  ultimately show ?thesis using r by blast
qed





section \<open>Properties of the order of steps in \<open>ParseOSMData\<close>\<close>

text \<open>
  Claim C8. When the edge list is empty after both parsing pipelines, \<open>ParseOSMData\<close>
  fails with the "no edges remaining" exception right after them: \<open>PrepareData\<close> has
  not run and no profile properties are written.
\<close>

theorem ParseOSMData_no_edges:
  assumes "all_edges_list extraction = []"
  shows "ParseOSMData MAX_CLASS_INDEX MAX_EXCLUDABLE_CLASSES scripting_environment extraction
           = ([WriteTimestamp, ParseRelations, ParseWaysAndNodes], Inl NoEdgesRemaining)
       \<and> PrepareData
           \<notin> set (fst (ParseOSMData MAX_CLASS_INDEX MAX_EXCLUDABLE_CLASSES scripting_environment
                          extraction))
       \<and> (\<forall>profile_properties.
             WriteProfileProperties profile_properties
               \<notin> set (fst (ParseOSMData MAX_CLASS_INDEX MAX_EXCLUDABLE_CLASSES
                              scripting_environment extraction)))"
  using assms by (simp add: ParseOSMData_def)

theorem ParseOSMData_no_edges_witness:
  "all_edges_list no_ways = []
   \<and> ParseOSMData 7 8 profile_illegal_name no_ways
       = ([WriteTimestamp, ParseRelations, ParseWaysAndNodes], Inl NoEdgesRemaining)"
proof -
  have e: "all_edges_list no_ways = []" by (simp add: no_ways_def)
  from ParseOSMData_no_edges[OF e, of 7 8 profile_illegal_name] e show ?thesis by blast
qed

lemma SetClassNames_Inr_valid:
  assumes "SetClassNames mci declared cm pp = Inr (cm', pp')" and "distinct (map fst cm)"
  shows "(\<forall>nm\<in>set declared. isValidClassName nm)
       \<and> \<not> ((\<exists>nm\<in>set declared. nm \<notin> set (map fst cm))
              \<and> mci + 1 < card (set declared \<union> set (map fst cm)))
       \<and> \<not> (declared \<noteq> [] \<and> (\<exists>nm\<in>set (map fst cm). nm \<notin> set declared))"
proof (cases "declared = []")
  case True
  then show ?thesis by simp
next
  case False
  with assms(1) have a: "add_class_names mci declared cm = Inr cm'"
    and c: "check_class_names declared cm' = Inr ()"
    by (auto simp: SetClassNames_def split: sum.splits)
  note A = add_class_names_Inr[OF a]
  have keys: "set (map fst cm') = set (map fst cm) \<union> set declared" using A by blast
  have sub: "set (map fst cm') \<subseteq> set declared"
    using c by (simp add: check_class_names_Inr)
  have d': "distinct (map fst cm')" using A assms(2) by blast
  have "card (set declared \<union> set (map fst cm)) \<le> mci + 1"
    if "\<exists>nm\<in>set declared. nm \<notin> set (map fst cm)"
  proof -
    from that keys have "set (map fst cm') \<noteq> set (map fst cm)" by auto
    then have "cm' \<noteq> cm" by auto
    then have "length cm' \<le> mci + 1" using A by blast
    moreover have "card (set (map fst cm')) = length cm'"
      using distinct_card[OF d'] by simp
    ultimately show ?thesis using keys by (simp add: Un_commute)
  qed
  moreover have "\<not> (\<exists>nm\<in>set (map fst cm). nm \<notin> set declared)"
    using keys sub by blast
  ultimately show ?thesis using A by (meson not_less)
qed

text \<open>
  Claim C2, amended. Whenever the profile's declarations are invalid (an illegal name in
  the declared class list; more than \<open>MAX_CLASS_INDEX + 1\<close> classes in all with a
  declared class still to be added to the classes map; more than
  \<open>MAX_EXCLUDABLE_CLASSES\<close> excludable combinations; or, when the declared list is not
  empty, a class used on a way that is not in it), the run fails with an error. The
  error is raised after ingestion, that is after the parsing of relations, nodes and
  ways, and before the profile properties are written.
\<close>

theorem ParseOSMData_invalid_declaration:
  assumes "distinct (map fst (parsed_classes_map extraction))"
    and "invalid_profile_declaration MAX_CLASS_INDEX MAX_EXCLUDABLE_CLASSES
           scripting_environment extraction"
  shows "\<exists>e events.
           ParseOSMData MAX_CLASS_INDEX MAX_EXCLUDABLE_CLASSES scripting_environment extraction
             = (events, Inl e)
         \<and> take 3 events = [WriteTimestamp, ParseRelations, ParseWaysAndNodes]
         \<and> (\<forall>profile_properties. WriteProfileProperties profile_properties \<notin> set events)"
proof (cases "all_edges_list extraction = []")
  case True
  then show ?thesis by (simp add: ParseOSMData_def)
next
  case edges: False
  let ?declared = "GetClassNames scripting_environment"
  let ?cm = "parsed_classes_map extraction"
  let ?pp = "GetProfileProperties scripting_environment"
  show ?thesis
  proof (cases "SetClassNames MAX_CLASS_INDEX ?declared ?cm ?pp")
    case (Inl e)
    with edges show ?thesis by (simp add: ParseOSMData_def)
  next
    case (Inr res)
    then obtain cm' pp' where res: "res = (cm', pp')" by (cases res)
    from SetClassNames_Inr_valid[OF Inr[unfolded res] assms(1)] assms(2)
    have many: "MAX_EXCLUDABLE_CLASSES < length (GetExcludableClasses scripting_environment)"
      by (auto simp: invalid_profile_declaration_def Let_def)
    then have "SetExcludableClasses MAX_EXCLUDABLE_CLASSES cm'
                 (GetExcludableClasses scripting_environment) pp'
               = Inl (TooManyExcludableCombinations MAX_EXCLUDABLE_CLASSES)"
      by (simp add: SetExcludableClasses_def)
    with edges Inr res show ?thesis by (simp add: ParseOSMData_def)
  qed
qed

theorem ParseOSMData_invalid_declaration_witness:
  "distinct (map fst (parsed_classes_map one_way_used_toll))
   \<and> invalid_profile_declaration 7 8 profile_illegal_name one_way_used_toll
   \<and> (\<exists>e events. ParseOSMData 7 8 profile_illegal_name one_way_used_toll = (events, Inl e)
          \<and> take 3 events = [WriteTimestamp, ParseRelations, ParseWaysAndNodes])"
proof -
  have d: "distinct (map fst (parsed_classes_map one_way_used_toll))"
    by (simp add: one_way_used_toll_def)
  have "\<not> isValidClassName ''toll-road''"
    by (simp add: isValidClassName_def isalnum_def)
  then have i: "invalid_profile_declaration 7 8 profile_illegal_name one_way_used_toll"
    by (simp add: invalid_profile_declaration_def profile_illegal_name_def Let_def)
  from ParseOSMData_invalid_declaration[OF d i] d i show ?thesis by blast
qed

text \<open>
  Claim C2 as the spec states it fails twice. An illegal declared class name is reported
  only after both parsing pipelines and \<open>PrepareData\<close> have run, not before ingestion
  starts. And when the profile declares no class names, classes used on ways (here one
  with an illegal name) are in no declared list, yet the run succeeds.
\<close>

theorem ParseOSMData_declaration_counterexample:
  "ParseOSMData 7 8 profile_illegal_name one_way_used_toll
     = ([WriteTimestamp, ParseRelations, ParseWaysAndNodes, PrepareData],
        Inl (InvalidClassName ''toll-road''))
   \<and> \<not> reported_before_ingestion
          (fst (ParseOSMData 7 8 profile_illegal_name one_way_used_toll))
   \<and> map fst (parsed_classes_map one_way_used_dash) = [''toll-road'', ''ferry'']
   \<and> GetClassNames profile_no_classes = []
   \<and> snd (ParseOSMData 7 8 profile_no_classes one_way_used_dash) = Inr ()"
proof -
  have v: "isValidClassName ''toll''" "\<not> isValidClassName ''toll-road''"
    by (simp_all add: isValidClassName_def isalnum_def)
  have idx: "getClassIndexes (1 :: 8 word) = [0]" "getClassIndexes (2 :: 8 word) = [1]"
    by code_simp+
  have a: "ParseOSMData 7 8 profile_illegal_name one_way_used_toll
     = ([WriteTimestamp, ParseRelations, ParseWaysAndNodes, PrepareData],
        Inl (InvalidClassName ''toll-road''))"
    by (simp add: ParseOSMData_def profile_illegal_name_def one_way_used_toll_def
        SetClassNames_def v)
  have b: "\<not> reported_before_ingestion
          (fst (ParseOSMData 7 8 profile_illegal_name one_way_used_toll))"
    unfolding a by (simp add: reported_before_ingestion_def)
  have c: "snd (ParseOSMData 7 8 profile_no_classes one_way_used_dash) = Inr ()"
    by (simp add: ParseOSMData_def profile_no_classes_def one_way_used_dash_def
        SetClassNames_def SetExcludableClasses_def idx Let_def)
  have d: "map fst (parsed_classes_map one_way_used_dash) = [''toll-road'', ''ferry'']"
    "GetClassNames profile_no_classes = []"
    by (simp_all add: one_way_used_dash_def profile_no_classes_def)
  from a b c d show ?thesis by blast
qed

end
